theory Spec2Isabelle
  imports Main "HOL-Library.AList" "HOL-Library.Sublist"
begin

section \<open>Values of the host language\<close>

text \<open>
  Attribute values are typed \<open>any\<close> in \<open>types.ts\<close>.  The fragment of values modelled here:
  \<open>undefined\<close>, \<open>null\<close>, booleans, the numbers written as integer literals (\<open>JNum n\<close> is
  the Number value of the literal \<open>n\<close>: the double nearest to \<open>n\<close>, or an infinity when \<open>n\<close>
  is beyond the doubles), \<open>NaN\<close>, strings, functions (an identity and the source text that
  \<open>toString\<close> returns), plain objects (an identity), and the members of
  \<open>Object.prototype\<close>, which every plain object inherits (\<open>JProto\<close> with the member's
  name).  A string is a sequence of code units below 256.
\<close>

datatype jsval =
    JUndefined
  | JNull
  | JBool bool
  | JNum int
  | JNaN
  | JStr string
  | JFun nat string
  | JObj nat
  | JProto string

text \<open>
  The names of the members of \<open>Object.prototype\<close>.  All are functions but \<open>__proto__\<close>,
  an accessor that yields \<open>Object.prototype\<close> itself.
\<close>

definition proto_keys :: "string list" where
  "proto_keys =
     [''constructor'', ''__defineGetter__'', ''__defineSetter__'', ''hasOwnProperty'',
      ''__lookupGetter__'', ''__lookupSetter__'', ''isPrototypeOf'', ''propertyIsEnumerable'',
      ''toString'', ''valueOf'', ''__proto__'', ''toLocaleString'']"

text \<open>\<open>typeof v === 'function'\<close>, and the other classes of values that \<open>==\<close> tells apart.\<close>

fun is_function :: "jsval \<Rightarrow> bool" where
  "is_function (JFun _ _) = True"
| "is_function (JProto k) = (k \<noteq> ''__proto__'')"
| "is_function _ = False"

fun is_object :: "jsval \<Rightarrow> bool" where
  "is_object (JFun _ _) = True"
| "is_object (JObj _) = True"
| "is_object (JProto _) = True"
| "is_object _ = False"

fun is_nullish :: "jsval \<Rightarrow> bool" where
  "is_nullish JUndefined = True"
| "is_nullish JNull = True"
| "is_nullish _ = False"

text \<open>The truth value of \<open>v\<close> in a condition (\<open>if (v)\<close>, \<open>!v\<close>).\<close>

fun truthy :: "jsval \<Rightarrow> bool" where
  "truthy JUndefined = False"
| "truthy JNull = False"
| "truthy (JBool b) = b"
| "truthy (JNum n) = (n \<noteq> 0)"
| "truthy JNaN = False"
| "truthy (JStr s) = (s \<noteq> [])"
| "truthy (JFun _ _) = True"
| "truthy (JObj _) = True"
| "truthy (JProto _) = True"

subsection \<open>Numbers\<close>

text \<open>
  A Number is \<open>NaN\<close>, an infinity with its sign, or a finite double \<open>m \<times> 2\<^sup>e\<close>, written
  \<open>NFin m e\<close> with \<open>m\<close> odd, and \<open>NFin 0 0\<close> for zero (the two zeros are equal under \<open>==\<close>
  and have the same string form).
\<close>

datatype number = NNaN | NFin int int | NInf bool

function bit_length :: "int \<Rightarrow> nat" where
  "bit_length n = (if n \<le> 0 then 0 else Suc (bit_length (n div 2)))"
  by pat_completeness auto
termination
  by (relation "measure nat") auto

declare bit_length.simps [simp del]

text \<open>The integer part of the binary logarithm of \<open>p / q\<close>, for positive \<open>p\<close> and \<open>q\<close>.\<close>

definition floor_log2 :: "int \<Rightarrow> int \<Rightarrow> int" where
  "floor_log2 p q =
     (let d = int (bit_length p) - int (bit_length q)
      in if q * 2 ^ nat d \<le> p * 2 ^ nat (- d) then d else d - 1)"

function normal :: "int \<Rightarrow> int \<Rightarrow> number" where
  "normal m e =
     (if m = 0 then NFin 0 0
      else if even m then normal (m div 2) (e + 1)
      else NFin m e)"
  by pat_completeness auto
termination
  by (relation "measure (\<lambda>(m, e). nat \<bar>m\<bar>)") auto

declare normal.simps [simp del]

text \<open>
  The Number value of the positive rational \<open>p / q\<close>: the nearest double with a significand
  of 53 bits and an exponent from \<open>-1074\<close>, a tie going to the even significand, and
  \<open>Infinity\<close> from \<open>2\<^sup>1\<^sup>0\<^sup>2\<^sup>4\<close> on.
\<close>

definition round_pos :: "int \<Rightarrow> int \<Rightarrow> number" where
  "round_pos p q =
     (let e = max (floor_log2 p q - 52) (- 1074);
          a = p * 2 ^ nat (- e);
          b = q * 2 ^ nat e;
          m0 = a div b;
          r = a mod b;
          m = (if b < 2 * r \<or> (2 * r = b \<and> odd m0) then m0 + 1 else m0)
      in if 971 < e \<or> (e = 971 \<and> 2 ^ 53 \<le> m) then NInf True else normal m e)"

fun negate :: "number \<Rightarrow> number" where
  "negate NNaN = NNaN"
| "negate (NFin m e) = NFin (- m) e"
| "negate (NInf b) = NInf (\<not> b)"

definition round_double :: "int \<Rightarrow> int \<Rightarrow> number" where
  "round_double p q =
     (if p = 0 then NFin 0 0
      else if 0 < p then round_pos p q
      else negate (round_pos (- p) q))"

definition number_of_int :: "int \<Rightarrow> number" where
  "number_of_int n = round_double n 1"

subsection \<open>Conversions used by loose equality\<close>

definition code :: "char \<Rightarrow> nat" where
  "code c = of_char c"

definition is_space :: "char \<Rightarrow> bool" where
  "is_space c = (c = CHR '' '' \<or> c = CHR 0x09 \<or> c = CHR 0x0A \<or> c = CHR 0x0B
                 \<or> c = CHR 0x0C \<or> c = CHR 0x0D \<or> c = CHR 0xA0)"

definition digit_table :: "(char \<times> int) list" where
  "digit_table =
     zip ''0123456789abcdefABCDEF''
       [0, 1, 2, 3, 4, 5, 6, 7, 8, 9, 10, 11, 12, 13, 14, 15, 10, 11, 12, 13, 14, 15]"

definition digit_val :: "char \<Rightarrow> int" where
  "digit_val c = (case map_of digit_table c of None \<Rightarrow> 16 | Some d \<Rightarrow> d)"

definition is_digit :: "char \<Rightarrow> bool" where
  "is_digit c = (digit_val c < 10)"

definition trim :: "string \<Rightarrow> string" where
  "trim s = rev (dropWhile is_space (rev (dropWhile is_space s)))"

text \<open>A nonempty run of digits of a radix, and its value.\<close>

definition radix_digits :: "int \<Rightarrow> string \<Rightarrow> bool" where
  "radix_digits b ds = (ds \<noteq> [] \<and> list_all (\<lambda>c. digit_val c < b) ds)"

definition radix_val :: "int \<Rightarrow> string \<Rightarrow> int" where
  "radix_val b ds = foldl (\<lambda>acc c. b * acc + digit_val c) 0 ds"

definition all_digits :: "string \<Rightarrow> bool" where
  "all_digits ds = radix_digits 10 ds"

definition digits_val :: "string \<Rightarrow> int" where
  "digits_val ds = radix_val 10 ds"

text \<open>The exponent part that may follow the digits of a decimal literal.\<close>

definition exponent_part :: "string \<Rightarrow> int option" where
  "exponent_part r =
     (if r = [] then Some 0
      else if hd r = CHR ''e'' \<or> hd r = CHR ''E'' then
        (let ds = tl r in
         if ds \<noteq> [] \<and> hd ds = CHR ''-'' \<and> all_digits (tl ds) then Some (- digits_val (tl ds))
         else if ds \<noteq> [] \<and> hd ds = CHR ''+'' \<and> all_digits (tl ds) then Some (digits_val (tl ds))
         else if all_digits ds then Some (digits_val ds)
         else None)
      else None)"

text \<open>The Number value of \<open>m \<times> 10\<^sup>k\<close>.\<close>

definition scale10 :: "int \<Rightarrow> int \<Rightarrow> number" where
  "scale10 m k =
     (if 0 \<le> k then round_double (m * 10 ^ nat k) 1 else round_double m (10 ^ nat (- k)))"

text \<open>
  An unsigned decimal literal: \<open>Infinity\<close>, or digits with an optional fraction and an
  optional exponent, at least one digit standing before the exponent.
\<close>

definition unsigned_decimal :: "string \<Rightarrow> number" where
  "unsigned_decimal t =
     (if t = ''Infinity'' then NInf True
      else
        (let ip = takeWhile is_digit t;
             r1 = dropWhile is_digit t;
             dot = (r1 \<noteq> [] \<and> hd r1 = CHR ''.'');
             fp = (if dot then takeWhile is_digit (tl r1) else []);
             r2 = (if dot then dropWhile is_digit (tl r1) else r1)
         in if ip = [] \<and> fp = [] then NNaN
            else (case exponent_part r2 of
                    None \<Rightarrow> NNaN
                  | Some ex \<Rightarrow> scale10 (digits_val (ip @ fp)) (ex - int (length fp)))))"

text \<open>
  The conversion of a string to a number, as \<open>==\<close> applies it: white space around the
  literal is dropped; the empty string is \<open>0\<close>; a literal is hexadecimal, octal or binary
  after its prefix, or a decimal literal with an optional sign; the value is rounded to the
  nearest double.  Every other string is \<open>NaN\<close>.
\<close>

definition string_to_number :: "string \<Rightarrow> number" where
  "string_to_number s =
     (let t = trim s in
      if t = [] then NFin 0 0
      else if take 2 t = ''0x'' \<or> take 2 t = ''0X'' then
        (if radix_digits 16 (drop 2 t) then number_of_int (radix_val 16 (drop 2 t)) else NNaN)
      else if take 2 t = ''0o'' \<or> take 2 t = ''0O'' then
        (if radix_digits 8 (drop 2 t) then number_of_int (radix_val 8 (drop 2 t)) else NNaN)
      else if take 2 t = ''0b'' \<or> take 2 t = ''0B'' then
        (if radix_digits 2 (drop 2 t) then number_of_int (radix_val 2 (drop 2 t)) else NNaN)
      else if hd t = CHR ''-'' then negate (unsigned_decimal (tl t))
      else if hd t = CHR ''+'' then unsigned_decimal (tl t)
      else unsigned_decimal t)"

text \<open>
  \<open>ToPrimitive\<close> on an object: the source text of a function (for a built-in function the
  text that V8 prints), \<open>[object Object]\<close> for a plain object and for \<open>Object.prototype\<close>.
\<close>

definition native_text :: "string \<Rightarrow> string" where
  "native_text k =
     (if k = ''__proto__'' then ''[object Object]''
      else ''function '' @ (if k = ''constructor'' then ''Object'' else k) @ ''() { [native code] }'')"

fun to_primitive :: "jsval \<Rightarrow> jsval" where
  "to_primitive (JFun _ src) = JStr src"
| "to_primitive (JObj _) = JStr ''[object Object]''"
| "to_primitive (JProto k) = JStr (native_text k)"
| "to_primitive v = v"

text \<open>\<open>ToNumber\<close> on a primitive value.\<close>

fun to_number :: "jsval \<Rightarrow> number" where
  "to_number JNull = NFin 0 0"
| "to_number (JBool b) = (if b then NFin 1 0 else NFin 0 0)"
| "to_number (JNum n) = number_of_int n"
| "to_number (JStr s) = string_to_number s"
| "to_number v = NNaN"

fun is_string :: "jsval \<Rightarrow> bool" where
  "is_string (JStr _) = True"
| "is_string _ = False"

text \<open>
  \<open>x == y\<close>.  Two objects are equal when they are the same object; \<open>null\<close> and
  \<open>undefined\<close> equal each other and nothing else; otherwise an object is replaced by its
  primitive, and the two sides are compared as strings when both are strings and as numbers
  otherwise, \<open>NaN\<close> being equal to nothing.
\<close>

definition loose_eq :: "jsval \<Rightarrow> jsval \<Rightarrow> bool" where
  "loose_eq x y =
     (if is_object x \<and> is_object y then x = y
      else if is_nullish x \<or> is_nullish y then is_nullish x \<and> is_nullish y
      else
        (let x' = to_primitive x;
             y' = to_primitive y
         in if is_string x' \<and> is_string y' then x' = y'
            else to_number x' \<noteq> NNaN \<and> to_number x' = to_number y'))"

section \<open>Virtual nodes (\<open>types.ts\<close>)\<close>

text \<open>
  \<open>PropType\<close> is a plain object with string keys; its own entries are listed in the
  object's enumeration order (the keys that are array indices first, in ascending order,
  then the other keys in the order they were added), each key once.  An absent \<open>props\<close>
  field is \<open>None\<close>.
\<close>

type_synonym PropType = "(string \<times> jsval) list"

datatype VNode = VNode (type: string) (props: "PropType option") (children: "child list")
and child = CText string | CNode VNode


section \<open>Tree construction: \<open>h\<close>\<close>

text \<open>
  The variadic \<open>children\<close> argument of \<open>h\<close>: virtual nodes and strings, \<open>null\<close>,
  \<open>undefined\<close>, and arrays of these, nested to any depth.
\<close>

datatype harg = Leaf child | ANull | AUndefined | AArr "harg list"

text \<open>\<open>children.flat(Infinity)\<close>: every array element is replaced by its own flattening.\<close>

fun flat_inf :: "harg list \<Rightarrow> harg list" where
  "flat_inf [] = []"
| "flat_inf (AArr xs # rest) = flat_inf xs @ flat_inf rest"
| "flat_inf (x # rest) = x # flat_inf rest"

text \<open>The filter predicate \<open>child != null\<close>, which \<open>undefined\<close> fails as well.\<close>

fun not_null :: "harg \<Rightarrow> bool" where
  "not_null ANull = False"
| "not_null AUndefined = False"
| "not_null _ = True"

text \<open>
  The object that \<open>h\<close> returns: \<open>type\<close>, \<open>props\<close> and \<open>children\<close>, the array that the
  filter returned.  The declared type of the result is \<open>VNode\<close>, which does nothing
  when the code runs: an entry that is no virtual node and no string would stay in the array.
\<close>

datatype hnode = HNode (htype: string) (hprops: "PropType option") (hchildren: "harg list")

definition h :: "string \<Rightarrow> PropType option \<Rightarrow> harg list \<Rightarrow> hnode" where
  "h ty ps cs =
     (let flatChildren = filter not_null (flat_inf cs)
      in HNode ty ps flatChildren)"

text \<open>
  An object of that shape is a virtual node when every entry of its \<open>children\<close> is a
  virtual node or a string.
\<close>

fun as_child :: "harg \<Rightarrow> child option" where
  "as_child (Leaf c) = Some c"
| "as_child _ = None"

fun as_children :: "harg list \<Rightarrow> child list option" where
  "as_children [] = Some []"
| "as_children (a # rest) =
     (case as_child a of
        None \<Rightarrow> None
      | Some c \<Rightarrow> (case as_children rest of None \<Rightarrow> None | Some cs \<Rightarrow> Some (c # cs)))"

definition as_VNode :: "hnode \<Rightarrow> VNode option" where
  "as_VNode x =
     (case as_children (hchildren x) of
        None \<Rightarrow> None
      | Some cs \<Rightarrow> Some (VNode (htype x) (hprops x) cs))"

text \<open>
  The flattening as the specification words it: the leaves of the nesting from left to right,
  with \<open>null\<close> and \<open>undefined\<close> left out.
\<close>

fun leaves :: "harg \<Rightarrow> child list" where
  "leaves (Leaf c) = [c]"
| "leaves ANull = []"
| "leaves AUndefined = []"
| "leaves (AArr xs) = concat (map leaves xs)"

section \<open>The host tree\<close>

text \<open>
  The host is the document object model of an HTML document.  A live node is a text node or
  an element with its attributes (name and string value), its event listeners (event name
  and callback) and its child nodes; a text node can carry listeners and nothing else.
\<close>

datatype dnode =
    DText string "(string \<times> jsval) list"
  | DElem string "(string \<times> string) list" "(string \<times> jsval) list" "dnode list"

text \<open>
  What a call can throw: the language's \<open>TypeError\<close> (a method of \<open>undefined\<close>, a
  missing method, a host method given a value that is no node or no listener), the host's
  \<open>HierarchyRequestError\<close> (a child appended to a text node) and
  \<open>InvalidCharacterError\<close> (a tag or attribute name that is no name), and the \<open>Error\<close>
  that \<open>mount\<close> constructs, with its message.
\<close>

datatype error = TypeError | HierarchyRequestError | InvalidCharacterError | Error string

definition ebind :: "error + 'a \<Rightarrow> ('a \<Rightarrow> error + 'b) \<Rightarrow> error + 'b" where
  "ebind m f = (case m of Inl e \<Rightarrow> Inl e | Inr x \<Rightarrow> f x)"

subsection \<open>Names\<close>

text \<open>
  The host checks a tag or attribute name against the \<open>Name\<close> production of XML: a
  letter, \<open>_\<close> or \<open>:\<close>, followed by letters, digits, \<open>-\<close>, \<open>.\<close>, \<open>_\<close>, \<open>:\<close> and the
  middle dot.  In an HTML document it stores a name with the letters \<open>A\<close> to \<open>Z\<close> in
  lower case.
\<close>

definition name_start_char :: "char \<Rightarrow> bool" where
  "name_start_char c =
     (c = CHR '':'' \<or> c = CHR ''_''
      \<or> (65 \<le> code c \<and> code c \<le> 90) \<or> (97 \<le> code c \<and> code c \<le> 122)
      \<or> (192 \<le> code c \<and> code c \<le> 214) \<or> (216 \<le> code c \<and> code c \<le> 246)
      \<or> 248 \<le> code c)"

definition name_char :: "char \<Rightarrow> bool" where
  "name_char c =
     (name_start_char c \<or> c = CHR ''-'' \<or> c = CHR ''.''
      \<or> (48 \<le> code c \<and> code c \<le> 57) \<or> code c = 183)"

definition valid_name :: "string \<Rightarrow> bool" where
  "valid_name s = (case s of [] \<Rightarrow> False | c # cs \<Rightarrow> name_start_char c \<and> list_all name_char cs)"

definition ascii_lower :: "char \<Rightarrow> char" where
  "ascii_lower c =
     (case map_of (zip ''ABCDEFGHIJKLMNOPQRSTUVWXYZ'' ''abcdefghijklmnopqrstuvwxyz'') c of
        None \<Rightarrow> c | Some l \<Rightarrow> l)"

subsection \<open>The string form of a value\<close>

text \<open>The decimal digits of a number that is not negative.\<close>

function decimal :: "int \<Rightarrow> string" where
  "decimal n =
     (if n < 10 then [''0123456789'' ! nat n]
      else decimal (n div 10) @ [''0123456789'' ! nat (n mod 10)])"
  by pat_completeness auto
termination
  by (relation "measure nat") auto

declare decimal.simps [simp del]

text \<open>
  The string form of a positive integral Number \<open>x\<close> is made of the fewest significant
  digits that still denote \<open>x\<close>.  \<open>pick x k\<close> is the number with \<open>k\<close> significant digits
  nearest to \<open>x\<close> among those whose Number value is \<open>x\<close>, if there is one.
\<close>

definition ndigits :: "int \<Rightarrow> nat" where
  "ndigits n = length (decimal n)"

definition pick :: "int \<Rightarrow> nat \<Rightarrow> int option" where
  "pick x k =
     (let u = 10 ^ (ndigits x - k);
          lo = (x div u) * u;
          hi = lo + u;
          ok_lo = (number_of_int lo = number_of_int x);
          ok_hi = (number_of_int hi = number_of_int x)
      in if ok_lo \<and> ok_hi then
           (if x - lo < hi - x then Some lo
            else if hi - x < x - lo then Some hi
            else if even (x div u) then Some lo else Some hi)
         else if ok_lo then Some lo
         else if ok_hi then Some hi
         else None)"

function shortest :: "int \<Rightarrow> nat \<Rightarrow> int" where
  "shortest x k =
     (if ndigits x \<le> k then x
      else (case pick x k of Some c \<Rightarrow> c | None \<Rightarrow> shortest x (Suc k)))"
  by pat_completeness auto
termination
  by (relation "measure (\<lambda>(x, k). ndigits x - k)") auto

declare shortest.simps [simp del]

text \<open>
  Up to 21 digits the number is printed in full, the digits that are not significant being
  zeros; beyond, in exponent notation.
\<close>

definition positive_to_string :: "int \<Rightarrow> string" where
  "positive_to_string x =
     (let ds = decimal (shortest x 1);
          n = length ds
      in if n \<le> 21 then ds
         else (case rev (dropWhile (\<lambda>c. c = CHR ''0'') (rev ds)) of
                 [] \<Rightarrow> ds
               | d # rest \<Rightarrow>
                   (if rest = [] then [d] else d # CHR ''.'' # rest) @ ''e+'' @ decimal (int n - 1)))"

definition number_to_string :: "number \<Rightarrow> string" where
  "number_to_string x =
     (case x of
        NNaN \<Rightarrow> ''NaN''
      | NInf b \<Rightarrow> (if b then ''Infinity'' else ''-Infinity'')
      | NFin m e \<Rightarrow>
          (if m = 0 then ''0''
           else if m < 0 then CHR ''-'' # positive_to_string (- m * 2 ^ nat e)
           else positive_to_string (m * 2 ^ nat e)))"

fun to_string :: "jsval \<Rightarrow> string" where
  "to_string JUndefined = ''undefined''"
| "to_string JNull = ''null''"
| "to_string (JBool b) = (if b then ''true'' else ''false'')"
| "to_string (JNum n) = number_to_string (number_of_int n)"
| "to_string JNaN = ''NaN''"
| "to_string (JStr s) = s"
| "to_string (JFun _ src) = src"
| "to_string (JObj _) = ''[object Object]''"
| "to_string (JProto k) = native_text k"

subsection \<open>Host calls\<close>

text \<open>
  The calls the library makes on a live node.  A child is named by its position among the
  node's children at the time of the call.
\<close>

datatype hostop =
    SetAttribute string jsval
  | RemoveAttribute string
  | AddEventListener string jsval
  | RemoveEventListener string jsval
  | AppendChild dnode
  | RemoveChild nat
  | ReplaceChild nat dnode

fun childNodes :: "dnode \<Rightarrow> dnode list" where
  "childNodes (DText _ _) = []"
| "childNodes (DElem _ _ _ ks) = ks"

text \<open>
  The listener argument of \<open>addEventListener\<close> and \<open>removeEventListener\<close> is an object,
  \<open>null\<close> or \<open>undefined\<close>: any other value is a \<open>TypeError\<close>, and with \<open>null\<close> or
  \<open>undefined\<close> the call does nothing.  A listener is added once.
\<close>

definition add_listener :: "string \<Rightarrow> jsval \<Rightarrow> (string \<times> jsval) list \<Rightarrow> (string \<times> jsval) list" where
  "add_listener ev f ls = (if (ev, f) \<in> set ls then ls else ls @ [(ev, f)])"

definition listen :: "bool \<Rightarrow> string \<Rightarrow> jsval \<Rightarrow> (string \<times> jsval) list \<Rightarrow> error + (string \<times> jsval) list" where
  "listen add ev f ls =
     (if is_nullish f then Inr ls
      else if is_object f then Inr (if add then add_listener ev f ls else removeAll (ev, f) ls)
      else Inl TypeError)"

text \<open>
  The effect of one call on the node it is made on.  \<open>setAttribute\<close> checks the name and
  stores it in lower case with the string form of the value; \<open>removeAttribute\<close> removes the
  attribute of the name in lower case.  A text node has no \<open>setAttribute\<close> or
  \<open>removeAttribute\<close>, takes no child, and has no child to remove or replace;
  \<open>removeChild\<close> and \<open>replaceChild\<close> are given \<open>childNodes[i]\<close>, which is \<open>undefined\<close>
  when \<open>i\<close> is out of range.
\<close>

fun perform :: "hostop \<Rightarrow> dnode \<Rightarrow> error + dnode" where
  "perform (SetAttribute k v) (DElem t as ls ks) =
     (if valid_name k then Inr (DElem t (AList.update (map ascii_lower k) (to_string v) as) ls ks)
      else Inl InvalidCharacterError)"
| "perform (SetAttribute k v) (DText s ls) = Inl TypeError"
| "perform (RemoveAttribute k) (DElem t as ls ks) = Inr (DElem t (AList.delete (map ascii_lower k) as) ls ks)"
| "perform (RemoveAttribute k) (DText s ls) = Inl TypeError"
| "perform (AddEventListener ev f) (DElem t as ls ks) =
     (case listen True ev f ls of Inl e \<Rightarrow> Inl e | Inr ls' \<Rightarrow> Inr (DElem t as ls' ks))"
| "perform (AddEventListener ev f) (DText s ls) =
     (case listen True ev f ls of Inl e \<Rightarrow> Inl e | Inr ls' \<Rightarrow> Inr (DText s ls'))"
| "perform (RemoveEventListener ev f) (DElem t as ls ks) =
     (case listen False ev f ls of Inl e \<Rightarrow> Inl e | Inr ls' \<Rightarrow> Inr (DElem t as ls' ks))"
| "perform (RemoveEventListener ev f) (DText s ls) =
     (case listen False ev f ls of Inl e \<Rightarrow> Inl e | Inr ls' \<Rightarrow> Inr (DText s ls'))"
| "perform (AppendChild c) (DElem t as ls ks) = Inr (DElem t as ls (ks @ [c]))"
| "perform (AppendChild c) (DText s ls) = Inl HierarchyRequestError"
| "perform (RemoveChild i) (DElem t as ls ks) =
     (if i < length ks then Inr (DElem t as ls (take i ks @ drop (Suc i) ks)) else Inl TypeError)"
| "perform (RemoveChild i) (DText s ls) = Inl TypeError"
| "perform (ReplaceChild i c) (DElem t as ls ks) =
     (if i < length ks then Inr (DElem t as ls (ks[i := c])) else Inl TypeError)"
| "perform (ReplaceChild i c) (DText s ls) = Inl TypeError"

text \<open>
  A method call \<open>el.m(...)\<close> where \<open>el\<close> may be \<open>undefined\<close>: the state is the node and
  the calls made on it so far.
\<close>

type_synonym el_state = "dnode option \<times> hostop list"

definition invoke :: "hostop \<Rightarrow> el_state \<Rightarrow> error + el_state" where
  "invoke op st =
     (case fst st of
        None \<Rightarrow> Inl TypeError
      | Some d \<Rightarrow> (case perform op d of Inl e \<Rightarrow> Inl e | Inr d' \<Rightarrow> Inr (Some d', snd st @ [op])))"

section \<open>Renderer: \<open>render\<close>\<close>

definition starts_with_on :: "string \<Rightarrow> bool" where
  "starts_with_on key = (take 2 key = ''on'')"

text \<open>\<open>toLowerCase\<close> on a code unit below 256.\<close>

definition to_lower :: "char \<Rightarrow> char" where
  "to_lower c =
     (case map_of
        (zip (''ABCDEFGHIJKLMNOPQRSTUVWXYZ'' @
          [CHR 0xC0, CHR 0xC1, CHR 0xC2, CHR 0xC3, CHR 0xC4, CHR 0xC5, CHR 0xC6, CHR 0xC7,
          CHR 0xC8, CHR 0xC9, CHR 0xCA, CHR 0xCB, CHR 0xCC, CHR 0xCD, CHR 0xCE, CHR 0xCF,
          CHR 0xD0, CHR 0xD1, CHR 0xD2, CHR 0xD3, CHR 0xD4, CHR 0xD5, CHR 0xD6, CHR 0xD8,
          CHR 0xD9, CHR 0xDA, CHR 0xDB, CHR 0xDC, CHR 0xDD, CHR 0xDE])
         (''abcdefghijklmnopqrstuvwxyz'' @
          [CHR 0xE0, CHR 0xE1, CHR 0xE2, CHR 0xE3, CHR 0xE4, CHR 0xE5, CHR 0xE6, CHR 0xE7,
          CHR 0xE8, CHR 0xE9, CHR 0xEA, CHR 0xEB, CHR 0xEC, CHR 0xED, CHR 0xEE, CHR 0xEF,
          CHR 0xF0, CHR 0xF1, CHR 0xF2, CHR 0xF3, CHR 0xF4, CHR 0xF5, CHR 0xF6, CHR 0xF8,
          CHR 0xF9, CHR 0xFA, CHR 0xFB, CHR 0xFC, CHR 0xFD, CHR 0xFE])) c of
        None \<Rightarrow> c | Some l \<Rightarrow> l)"

text \<open>\<open>key.slice(2).toLowerCase()\<close>\<close>

definition event_name :: "string \<Rightarrow> string" where
  "event_name key = map to_lower (drop 2 key)"

text \<open>\<open>document.createElement(tag)\<close>\<close>

definition createElement :: "string \<Rightarrow> error + dnode" where
  "createElement tag =
     (if valid_name tag then Inr (DElem (map ascii_lower tag) [] [] []) else Inl InvalidCharacterError)"

text \<open>The body of the loop over \<open>Object.entries(vnode.props)\<close>, and the loop.\<close>

fun render_prop :: "dnode \<Rightarrow> string \<times> jsval \<Rightarrow> error + dnode" where
  "render_prop el (key, v) =
     (if starts_with_on key \<and> is_function v
      then perform (AddEventListener (event_name key) v) el
      else perform (SetAttribute key v) el)"

fun render_props :: "dnode \<Rightarrow> (string \<times> jsval) list \<Rightarrow> error + dnode" where
  "render_props el [] = Inr el"
| "render_props el (entry # entries) =
     (case render_prop el entry of Inl e \<Rightarrow> Inl e | Inr el' \<Rightarrow> render_props el' entries)"

text \<open>
  \<open>render(vnode)\<close>, and its loop over \<open>vnode.children\<close>, which renders a child and appends
  it.  The result is the new element, or the error the host threw.
\<close>

fun render :: "VNode \<Rightarrow> error + dnode"
and render_children :: "dnode \<Rightarrow> child list \<Rightarrow> error + dnode" where
  "render (VNode ty ps cs) =
     (case createElement ty of
        Inl e \<Rightarrow> Inl e
      | Inr el \<Rightarrow>
         (case (case ps of None \<Rightarrow> Inr el | Some entries \<Rightarrow> render_props el entries) of
            Inl e \<Rightarrow> Inl e
          | Inr el' \<Rightarrow> render_children el' cs))"
| "render_children el [] = Inr el"
| "render_children el (CText s # cs) =
     (case perform (AppendChild (DText s [])) el of
        Inl e \<Rightarrow> Inl e
      | Inr el' \<Rightarrow> render_children el' cs)"
| "render_children el (CNode v # cs) =
     (case render v of
        Inl e \<Rightarrow> Inl e
      | Inr ChildEl \<Rightarrow>
         (case perform (AppendChild ChildEl) el of
            Inl e \<Rightarrow> Inl e
          | Inr el' \<Rightarrow> render_children el' cs))"

text \<open>The node made for one child.\<close>

fun render_child :: "child \<Rightarrow> error + dnode" where
  "render_child (CText s) = Inr (DText s [])"
| "render_child (CNode v) = render v"

fun append_child :: "dnode \<Rightarrow> dnode \<Rightarrow> dnode" where
  "append_child (DElem t as ls ks) c = DElem t as ls (ks @ [c])"
| "append_child (DText s ls) c = DText s ls"

section \<open>Mount: \<open>mount\<close>\<close>

text \<open>
  The document is the tree under its root element.  \<open>document.getElementById\<close> returns the
  first element, in tree order, whose \<open>id\<close> attribute is the identifier, here as the path
  of child positions that leads to it; the empty identifier names no element.
\<close>

fun getElementById :: "dnode \<Rightarrow> string \<Rightarrow> nat list option"
and getElementById_list :: "dnode list \<Rightarrow> nat \<Rightarrow> string \<Rightarrow> nat list option" where
  "getElementById (DText s ls) c = None"
| "getElementById (DElem t as ls ks) c =
     (if c \<noteq> [] \<and> map_of as ''id'' = Some c then Some [] else getElementById_list ks 0 c)"
| "getElementById_list [] i c = None"
| "getElementById_list (k # ks) i c =
     (case getElementById k c of
        Some path \<Rightarrow> Some (i # path)
      | None \<Rightarrow> getElementById_list ks (Suc i) c)"

text \<open>The node at a path is replaced by its image under \<open>f\<close>.\<close>

fun update_at :: "nat list \<Rightarrow> (dnode \<Rightarrow> dnode) \<Rightarrow> dnode \<Rightarrow> dnode" where
  "update_at [] f d = f d"
| "update_at (i # path) f (DElem t as ls ks) =
     (if i < length ks then DElem t as ls (ks[i := update_at path f (ks ! i)]) else DElem t as ls ks)"
| "update_at (i # path) f (DText s ls) = DText s ls"

definition mount :: "VNode \<Rightarrow> string \<Rightarrow> dnode \<Rightarrow> error + dnode" where
  "mount vnode container doc =
     (case getElementById doc container of
        None \<Rightarrow> Inl (Error (''cannot find ID: '' @ container))
      | Some root \<Rightarrow>
         (case render vnode of
            Inl e \<Rightarrow> Inl e
          | Inr node \<Rightarrow> Inr (update_at root (\<lambda>el. append_child el node) doc)))"

section \<open>Attribute and listener diff: \<open>updateProps\<close>\<close>

text \<open>
  \<open>obj[key]\<close> and \<open>key in obj\<close> on an attribute mapping, a plain object: a key that the
  object does not have itself is looked up in \<open>Object.prototype\<close>.
\<close>

definition prop_get :: "PropType \<Rightarrow> string \<Rightarrow> jsval" where
  "prop_get ps key =
     (case map_of ps key of
        Some v \<Rightarrow> v
      | None \<Rightarrow> if key \<in> set proto_keys then JProto key else JUndefined)"

definition prop_in :: "string \<Rightarrow> PropType \<Rightarrow> bool" where
  "prop_in key ps = (map_of ps key \<noteq> None \<or> key \<in> set proto_keys)"

text \<open>A \<open>for (const key in obj)\<close> loop whose body may throw.\<close>

fun for_in :: "(string \<Rightarrow> 's \<Rightarrow> error + 's) \<Rightarrow> string list \<Rightarrow> 's \<Rightarrow> error + 's" where
  "for_in body [] st = Inr st"
| "for_in body (key # keys) st =
     (case body key st of Inl e \<Rightarrow> Inl e | Inr st' \<Rightarrow> for_in body keys st')"

text \<open>The body of the first loop, over the keys of \<open>newProps\<close>.\<close>

definition set_prop :: "PropType \<Rightarrow> PropType \<Rightarrow> string \<Rightarrow> el_state \<Rightarrow> error + el_state" where
  "set_prop newProps oldProps key st =
     (if \<not> loose_eq (prop_get newProps key) (prop_get oldProps key) then
        (if starts_with_on key \<and> is_function (prop_get newProps key) then
           ebind
             (if truthy (prop_get oldProps key)
              then invoke (RemoveEventListener (event_name key) (prop_get oldProps key)) st
              else Inr st)
             (invoke (AddEventListener (event_name key) (prop_get newProps key)))
         else invoke (SetAttribute key (prop_get newProps key)) st)
      else Inr st)"

text \<open>The body of the second loop, over the keys of \<open>oldProps\<close>.\<close>

definition remove_prop :: "PropType \<Rightarrow> PropType \<Rightarrow> string \<Rightarrow> el_state \<Rightarrow> error + el_state" where
  "remove_prop newProps oldProps key st =
     (if \<not> prop_in key newProps then
        (if starts_with_on key \<and> is_function (prop_get oldProps key)
         then invoke (RemoveEventListener (event_name key) (prop_get oldProps key)) st
         else invoke (RemoveAttribute key) st)
      else Inr st)"

text \<open>
  \<open>updateProps(el, newProps = {}, oldProps = {})\<close>: the result is the element after the calls
  and the calls in the order they were made, or the error that stopped them.
\<close>

fun default_props :: "PropType option \<Rightarrow> PropType" where
  "default_props None = []"
| "default_props (Some ps) = ps"

definition updateProps :: "dnode option \<Rightarrow> PropType option \<Rightarrow> PropType option \<Rightarrow> error + el_state" where
  "updateProps el newProps' oldProps' =
     (let newProps = default_props newProps';
          oldProps = default_props oldProps'
      in ebind (for_in (set_prop newProps oldProps) (map fst newProps) (el, []))
               (for_in (remove_prop newProps oldProps) (map fst oldProps)))"

subsection \<open>The calls of the two loops, key by key\<close>

text \<open>
  The calls for one key of the new mapping: none when its value equals the old one; for an
  event key with a callable new value, \<open>removeEventListener\<close> with the old value when that
  value is truthy, then the new listener added; the attribute set otherwise.
\<close>

definition set_ops :: "PropType \<Rightarrow> PropType \<Rightarrow> string \<Rightarrow> hostop list" where
  "set_ops newProps oldProps key =
     (if loose_eq (prop_get newProps key) (prop_get oldProps key) then []
      else if starts_with_on key \<and> is_function (prop_get newProps key) then
        (if truthy (prop_get oldProps key)
         then [RemoveEventListener (event_name key) (prop_get oldProps key)] else [])
        @ [AddEventListener (event_name key) (prop_get newProps key)]
      else [SetAttribute key (prop_get newProps key)])"

text \<open>
  The calls for one key of the old mapping: none when the new mapping has the key; the
  listener removed for an event key with a callable value; the attribute removed otherwise.
\<close>

definition remove_ops :: "PropType \<Rightarrow> PropType \<Rightarrow> string \<Rightarrow> hostop list" where
  "remove_ops newProps oldProps key =
     (if prop_in key newProps then []
      else if starts_with_on key \<and> is_function (prop_get oldProps key)
      then [RemoveEventListener (event_name key) (prop_get oldProps key)]
      else [RemoveAttribute key])"

definition minimal_ops :: "PropType \<Rightarrow> PropType \<Rightarrow> hostop list" where
  "minimal_ops newProps oldProps =
     concat (map (set_ops newProps oldProps) (map fst newProps))
     @ concat (map (remove_ops newProps oldProps) (map fst oldProps))"

subsection \<open>The diff as the specification words it\<close>

text \<open>
  The value of a key in a mapping, \<open>undefined\<close> for a key the mapping does not have.
  For a key of the new mapping whose value differs from the old one: for an event key with a
  callable new value, the old listener removed if there was one, then the new listener added;
  the attribute set otherwise.  For a key that only the old mapping has: the old listener
  removed if the key is an event key, the attribute removed otherwise.
\<close>

definition claimed_value :: "PropType \<Rightarrow> string \<Rightarrow> jsval" where
  "claimed_value ps key = (case map_of ps key of None \<Rightarrow> JUndefined | Some v \<Rightarrow> v)"

definition claimed_set_ops :: "PropType \<Rightarrow> PropType \<Rightarrow> string \<Rightarrow> hostop list" where
  "claimed_set_ops newProps oldProps key =
     (if loose_eq (claimed_value newProps key) (claimed_value oldProps key) then []
      else if starts_with_on key \<and> is_function (claimed_value newProps key) then
        (if is_function (claimed_value oldProps key)
         then [RemoveEventListener (event_name key) (claimed_value oldProps key)] else [])
        @ [AddEventListener (event_name key) (claimed_value newProps key)]
      else [SetAttribute key (claimed_value newProps key)])"

definition claimed_remove_ops :: "PropType \<Rightarrow> PropType \<Rightarrow> string \<Rightarrow> hostop list" where
  "claimed_remove_ops newProps oldProps key =
     (if map_of newProps key \<noteq> None then []
      else if starts_with_on key
      then [RemoveEventListener (event_name key) (claimed_value oldProps key)]
      else [RemoveAttribute key])"

definition claimed_ops :: "PropType \<Rightarrow> PropType \<Rightarrow> hostop list" where
  "claimed_ops newProps oldProps =
     concat (map (claimed_set_ops newProps oldProps) (map fst newProps))
     @ concat (map (claimed_remove_ops newProps oldProps) (map fst oldProps))"

text \<open>
  Every event key of a mapping has a callable value; no key of a mapping is the name of a
  member of \<open>Object.prototype\<close>; every key of a mapping that \<open>render\<close> and \<open>updateProps\<close>
  pass to \<open>setAttribute\<close> is a name.
\<close>

definition events_callable :: "PropType \<Rightarrow> bool" where
  "events_callable ps = (\<forall>(key, v) \<in> set ps. starts_with_on key \<longrightarrow> is_function v)"

definition own_keys_only :: "PropType \<Rightarrow> bool" where
  "own_keys_only ps = (\<forall>key \<in> fst ` set ps. key \<notin> set proto_keys)"

definition attribute_names :: "PropType \<Rightarrow> bool" where
  "attribute_names ps = (\<forall>(key, v) \<in> set ps. (starts_with_on key \<and> is_function v) \<or> valid_name key)"

subsection \<open>Sequences of calls\<close>

text \<open>A list of calls made on a node one after the other, up to the first that fails.\<close>

fun perform_all :: "hostop list \<Rightarrow> dnode \<Rightarrow> error + dnode" where
  "perform_all [] d = Inr d"
| "perform_all (op # ops) d = (case perform op d of Inl e \<Rightarrow> Inl e | Inr d' \<Rightarrow> perform_all ops d')"

fun invoke_all :: "hostop list \<Rightarrow> el_state \<Rightarrow> error + el_state" where
  "invoke_all [] st = Inr st"
| "invoke_all (op # ops) st = (case invoke op st of Inl e \<Rightarrow> Inl e | Inr st' \<Rightarrow> invoke_all ops st')"

text \<open>The calls that change the children of a node, and those that do not.\<close>

fun structural :: "hostop \<Rightarrow> bool" where
  "structural (AppendChild c) = True"
| "structural (RemoveChild i) = True"
| "structural (ReplaceChild i c) = True"
| "structural _ = False"

text \<open>The calls that an element accepts whatever its state: they change no child.\<close>

fun accepted :: "hostop \<Rightarrow> bool" where
  "accepted (SetAttribute k v) = valid_name k"
| "accepted (RemoveAttribute k) = True"
| "accepted (AddEventListener ev f) = (is_object f \<or> is_nullish f)"
| "accepted (RemoveEventListener ev f) = (is_object f \<or> is_nullish f)"
| "accepted _ = False"

section \<open>Reconciler: \<open>patch\<close>\<close>

text \<open>\<open>xs[i]\<close>, which is \<open>undefined\<close> out of range.\<close>

definition nth_opt :: "'a list \<Rightarrow> nat \<Rightarrow> 'a option" where
  "nth_opt xs i = (if i < length xs then Some (xs ! i) else None)"

fun is_text :: "child option \<Rightarrow> bool" where
  "is_text (Some (CText s)) = True"
| "is_text _ = False"

fun as_vnode :: "child option \<Rightarrow> VNode option" where
  "as_vnode (Some (CNode v)) = Some v"
| "as_vnode _ = None"

text \<open>
  The value of a child position in a comparison.  A virtual node is a plain object; its
  identity plays no role, since one side is a string wherever children are compared.
\<close>

fun child_val :: "child option \<Rightarrow> jsval" where
  "child_val None = JUndefined"
| "child_val (Some (CText s)) = JStr s"
| "child_val (Some (CNode v)) = JObj 0"

text \<open>
  The node that replaces a changed text position: a text node for a string, a rendered
  subtree otherwise; \<open>render(undefined)\<close> throws.
\<close>

fun fresh_child :: "child option \<Rightarrow> error + dnode" where
  "fresh_child (Some (CText s)) = Inr (DText s [])"
| "fresh_child (Some (CNode v)) = render v"
| "fresh_child None = Inl TypeError"

text \<open>
  A log entry is a host call with the path of the node it was made on, from the
  \<open>parent\<close> of the outermost \<open>patch\<close>.
\<close>

type_synonym hostlog = "(nat list \<times> hostop) list"

definition at_child :: "nat \<Rightarrow> hostlog \<Rightarrow> hostlog" where
  "at_child i lg = map (\<lambda>(path, op). (i # path, op)) lg"

definition here :: "hostop list \<Rightarrow> hostlog" where
  "here ops = map (\<lambda>op. ([], op)) ops"

text \<open>A call on \<open>parent\<close> itself.\<close>

definition on_parent :: "hostop \<Rightarrow> dnode \<Rightarrow> error + dnode \<times> hostlog" where
  "on_parent op p = (case perform op p of Inl e \<Rightarrow> Inl e | Inr p' \<Rightarrow> Inr (p', [([], op)]))"

text \<open>\<open>currentEl\<close> is a child of \<open>parent\<close>: what was done to it shows in \<open>parent\<close>.\<close>

fun put_child :: "nat \<Rightarrow> dnode option \<Rightarrow> dnode \<Rightarrow> dnode" where
  "put_child i (Some c) (DElem t as ls ks) = DElem t as ls (ks[i := c])"
| "put_child i _ p = p"

lemma size_nth_child:
  "i < length cs \<Longrightarrow> cs ! i = CNode v \<Longrightarrow> size v < size_list size cs"
proof (induction cs arbitrary: i)
  case Nil
  then show ?case by simp
next
  case (Cons c cs)
  show ?case
  proof (cases i)
    case 0
    with Cons.prems show ?thesis by simp
  next
    case (Suc j)
    with Cons.prems have "size v < size_list size cs"
      using Cons.IH [of j] by simp
    then show ?thesis by simp
  qed
qed

text \<open>
  \<open>patch(parent, newNode, oldNode, index)\<close> and its loop over the child positions
  \<open>i < max\<close>, which works on \<open>currentEl\<close>.  The result is the node after the calls and
  the calls made, or the error thrown.
\<close>

function patch :: "dnode option \<Rightarrow> VNode option \<Rightarrow> VNode option \<Rightarrow> nat \<Rightarrow> error + dnode \<times> hostlog"
and patch_children ::
  "dnode option \<Rightarrow> child list \<Rightarrow> child list \<Rightarrow> nat \<Rightarrow> nat \<Rightarrow> error + dnode option \<times> hostlog" where
  "patch parent newNode oldNode index =
     (case parent of
        None \<Rightarrow> Inl TypeError
      | Some p \<Rightarrow>
         (let currentEl = nth_opt (childNodes p) index in
          case oldNode of
            None \<Rightarrow>
              (case newNode of
                 None \<Rightarrow> Inl TypeError
               | Some n \<Rightarrow>
                   (case render n of
                      Inl e \<Rightarrow> Inl e
                    | Inr node \<Rightarrow> on_parent (AppendChild node) p))
          | Some old \<Rightarrow>
              (case newNode of
                 None \<Rightarrow> on_parent (RemoveChild index) p
               | Some new \<Rightarrow>
                   if type new \<noteq> type old then
                     (case render new of
                        Inl e \<Rightarrow> Inl e
                      | Inr node \<Rightarrow> on_parent (ReplaceChild index node) p)
                   else
                     (case updateProps currentEl (props new) (props old) of
                        Inl e \<Rightarrow> Inl e
                      | Inr (el, ops) \<Rightarrow>
                          (case patch_children el (children new) (children old) 0
                                  (max (length (children new)) (length (children old))) of
                             Inl e \<Rightarrow> Inl e
                           | Inr (el', lg) \<Rightarrow>
                               Inr (put_child index el' p, at_child index (here ops @ lg)))))))"
| "patch_children currentEl newChildren oldChildren i mx =
     (if i < mx then
        (if is_text (nth_opt newChildren i) \<or> is_text (nth_opt oldChildren i) then
           (if \<not> loose_eq (child_val (nth_opt newChildren i)) (child_val (nth_opt oldChildren i)) then
              (case currentEl of
                 None \<Rightarrow> Inl TypeError
               | Some el \<Rightarrow>
                  (case fresh_child (nth_opt newChildren i) of
                     Inl e \<Rightarrow> Inl e
                   | Inr node \<Rightarrow>
                      (case on_parent (ReplaceChild i node) el of
                         Inl e \<Rightarrow> Inl e
                       | Inr (el', lg) \<Rightarrow>
                          (case patch_children (Some el') newChildren oldChildren (Suc i) mx of
                             Inl e \<Rightarrow> Inl e
                           | Inr (el'', lg') \<Rightarrow> Inr (el'', lg @ lg')))))
            else patch_children currentEl newChildren oldChildren (Suc i) mx)
         else
           (case patch currentEl (as_vnode (nth_opt newChildren i)) (as_vnode (nth_opt oldChildren i)) i of
              Inl e \<Rightarrow> Inl e
            | Inr (el', lg) \<Rightarrow>
               (case patch_children (Some el') newChildren oldChildren (Suc i) mx of
                  Inl e \<Rightarrow> Inl e
                | Inr (el'', lg') \<Rightarrow> Inr (el'', lg @ lg'))))
      else Inr (currentEl, []))"
  by pat_completeness auto
termination
proof (relation "inv_image (less_than <*lex*> less_than)
    (\<lambda>x. case x of
       Inl (parent, newNode, oldNode, index) \<Rightarrow>
         ((case newNode of None \<Rightarrow> 0 | Some v \<Rightarrow> size v), 0)
     | Inr (currentEl, newChildren, oldChildren, i, mx) \<Rightarrow>
         (size_list size newChildren, Suc (mx - i)))", goal_cases)
  case 1
  show ?case by (intro wf_inv_image wf_lex_prod wf_less_than)
next
  case (2 parent newNode oldNode index p currentEl old new r el ops)
  then show ?case by (cases new) simp
next
  case (3 currentEl newChildren oldChildren i mx)
  then show ?case by auto
next
  case (4 currentEl newChildren oldChildren i mx)
  then show ?case by auto
next
  case (5 currentEl newChildren oldChildren i mx)
  then show ?case
    by (cases "nth_opt newChildren i" rule: as_vnode.cases)
       (auto simp: nth_opt_def dest: size_nth_child split: if_splits)
next
  case (6 currentEl newChildren oldChildren i mx)
  then show ?case by auto
qed

declare patch.simps [simp del] patch_children.simps [simp del]

subsection \<open>Trees that compare equal to themselves, and live trees that fit a virtual tree\<close>

text \<open>No attribute value of the tree is \<open>NaN\<close>, the one value that \<open>!=\<close> holds of itself.\<close>

fun nan_free_props :: "PropType option \<Rightarrow> bool" where
  "nan_free_props None = True"
| "nan_free_props (Some ps) = (JNaN \<notin> snd ` set ps)"

fun nan_free :: "VNode \<Rightarrow> bool" and nan_free_child :: "child \<Rightarrow> bool" where
  "nan_free (VNode ty ps cs) = (nan_free_props ps \<and> list_all nan_free_child cs)"
| "nan_free_child (CText s) = True"
| "nan_free_child (CNode v) = nan_free v"

text \<open>
  The live node has an element wherever the virtual tree has a virtual node, and a child
  for every child of it, and every key of the virtual tree that is set as an attribute is a
  name: what holds of a subtree rendered from the virtual tree, whatever its attributes, its
  text and the children that follow.
\<close>

fun props_ok :: "PropType option \<Rightarrow> bool" where
  "props_ok None = True"
| "props_ok (Some ps) = attribute_names ps"

fun shaped :: "VNode \<Rightarrow> dnode \<Rightarrow> bool"
and shaped_child :: "child \<Rightarrow> dnode \<Rightarrow> bool"
and shaped_children :: "child list \<Rightarrow> dnode list \<Rightarrow> bool" where
  "shaped (VNode ty ps cs) (DElem t as ls ks) = (props_ok ps \<and> shaped_children cs ks)"
| "shaped (VNode ty ps cs) (DText s ls) = False"
| "shaped_child (CText s) d = True"
| "shaped_child (CNode v) d = shaped v d"
| "shaped_children [] ks = True"
| "shaped_children (c # cs) (k # ks) = (shaped_child c k \<and> shaped_children cs ks)"
| "shaped_children (c # cs) [] = False"

text \<open>The calls of a log that change children.\<close>

definition structural_calls :: "hostlog \<Rightarrow> hostlog" where
  "structural_calls lg = filter (\<lambda>entry. structural (snd entry)) lg"

subsection \<open>Identifiers and nodes of a document\<close>

text \<open>The identifiers of the elements of a tree, in tree order, and the node at a path.\<close>

fun ids :: "dnode \<Rightarrow> string list" where
  "ids (DText s ls) = []"
| "ids (DElem t as ls ks) =
     (case map_of as ''id'' of
        None \<Rightarrow> []
      | Some c \<Rightarrow> if c = [] then [] else [c]) @ concat (map ids ks)"

fun node_at :: "dnode \<Rightarrow> nat list \<Rightarrow> dnode option" where
  "node_at d [] = Some d"
| "node_at (DElem t as ls ks) (i # path) = (if i < length ks then node_at (ks ! i) path else None)"
| "node_at (DText s ls) (i # path) = None"

subsection \<open>Patching a tree against itself\<close>

text \<open>
  What \<open>patch\<close> does with the same virtual node as new and old, on any parent whose child
  at the position has the shape of the node: it succeeds, the child keeps that shape, no
  call changes children, and where no attribute value is \<open>NaN\<close> nothing is called at all.
\<close>

definition same_ok :: "VNode \<Rightarrow> bool" where
  "same_ok v =
     (\<forall>t as ls ks idx. idx < length ks \<longrightarrow> shaped v (ks ! idx) \<longrightarrow>
        (\<exists>d' lg. patch (Some (DElem t as ls ks)) (Some v) (Some v) idx
                    = Inr (DElem t as ls (ks[idx := d']), lg)
           \<and> shaped v d' \<and> structural_calls lg = []
           \<and> (nan_free v \<longrightarrow> d' = ks ! idx \<and> lg = [])))"

fun same_ok_child :: "child \<Rightarrow> bool" where
  "same_ok_child (CText s) = True"
| "same_ok_child (CNode v) = same_ok v"

subsection \<open>Example trees\<close>

text \<open>
  \<open><div a=NaN>\<close>; a list with an item and a text; three items; a pair of trees that
  differ in every part and yet compare equal part by part; and the live nodes rendered from
  them.
\<close>

definition nan_node :: VNode where
  "nan_node = VNode ''div'' (Some [(''a'', JNaN)]) []"

definition nan_live :: dnode where
  "nan_live = DElem ''div'' [(''a'', ''NaN'')] [] []"

definition list_node :: VNode where
  "list_node = VNode ''ul'' None [CNode (VNode ''li'' (Some [(''k'', JNum 1)]) [CText ''x'']), CText ''y'']"

definition list_live :: dnode where
  "list_live = DElem ''ul'' [] [] [DElem ''li'' [(''k'', ''1'')] [] [DText ''x'' []], DText ''y'' []]"

definition item_x :: VNode where
  "item_x = VNode ''li'' None [CText ''x'']"

definition item_y :: VNode where
  "item_y = VNode ''li'' (Some [(''k'', JNum 1)]) []"

definition item_z :: VNode where
  "item_z = VNode ''p'' None []"

definition live_x :: dnode where
  "live_x = DElem ''li'' [] [] [DText ''x'' []]"

definition live_y :: dnode where
  "live_y = DElem ''li'' [(''k'', ''1'')] [] []"

definition live_z :: dnode where
  "live_z = DElem ''p'' [] [] []"


definition list_xyz :: VNode where
  "list_xyz = VNode ''ul'' None [CNode item_x, CNode item_y, CNode item_z]"


definition live_xyz :: dnode where
  "live_xyz = DElem ''ul'' [] [] [live_x, live_y, live_z]"

definition quirk_new :: VNode where
  "quirk_new = VNode ''p'' (Some [(''a'', JNum 16)]) [CNode (VNode ''b'' None [])]"

definition quirk_old :: VNode where
  "quirk_old = VNode ''p'' (Some [(''a'', JStr ''0x10'')]) [CText ''[object Object]'']"

definition quirk_live :: dnode where
  "quirk_live = DElem ''p'' [(''a'', ''0x10'')] [] [DText ''[object Object]'' []]"

definition page :: dnode where
  "page = DElem ''html'' [] [] [DElem ''body'' [] [] [DText ''hello'' [], DElem ''div'' [(''id'', ''root'')] [] []]]"


section \<open>Reactivity: \<open>effect\<close>, \<open>track\<close>, \<open>trigger\<close>, \<open>reactive\<close>\<close>

text \<open>
  A plain object, the target of \<open>reactive\<close>: its own data properties, and whether it is
  frozen (a write to a frozen object fails, and \<open>Reflect.set\<close> returns \<open>false\<close>).
\<close>

record jsobject =
  properties :: "(string \<times> jsval) list"
  frozen :: bool

text \<open>
  What a callback passed to \<open>effect\<close> can do to the library: read or write a property of a
  reactive object (named by the identity of its target), register a nested effect, throw, or
  call the exported \<open>track\<close> and \<open>trigger\<close>.
\<close>

datatype cmd =
    Get nat string
  | Set nat string jsval
  | Effect "cmd list"
  | Throw string
  | Track nat string
  | Trigger nat string

text \<open>
  The closure \<open>effectFn\<close> that a call of \<open>effect\<close> creates: its identity and the \<open>fn\<close>
  it captured.  Subscriber sets hold closures by identity.
\<close>

type_synonym closure = "nat \<times> cmd list"

text \<open>
  The module's state: \<open>activeEffect\<close>; \<open>typeDependencyMap\<close>, a map from targets to maps
  from keys to sets, a set being the list of its members in insertion order; the objects;
  the identity of the next closure; and the identities of the closures invoked so far.
\<close>

record rstate =
  activeEffect :: "closure option"
  typeDependencyMap :: "nat \<Rightarrow> (string \<Rightarrow> closure list option) option"
  heap :: "nat \<Rightarrow> jsobject"
  next_id :: nat
  calls :: "nat list"

datatype 'a completion = Returned 'a | Thrown error

text \<open>\<open>Set.prototype.add\<close>\<close>

definition set_add :: "closure \<Rightarrow> closure list \<Rightarrow> closure list" where
  "set_add e ds = (if fst e \<in> fst ` set ds then ds else ds @ [e])"

definition track :: "nat \<Rightarrow> string \<Rightarrow> rstate \<Rightarrow> rstate" where
  "track target key s =
     (case activeEffect s of
        None \<Rightarrow> s
      | Some e \<Rightarrow>
         (let depMap = (case typeDependencyMap s target of None \<Rightarrow> Map.empty | Some m \<Rightarrow> m);
              depSet = (case depMap key of None \<Rightarrow> [] | Some ds \<Rightarrow> ds)
          in s\<lparr>typeDependencyMap := (typeDependencyMap s)(target \<mapsto> depMap(key \<mapsto> set_add e depSet))\<rparr>))"

text \<open>The set recorded for a target and a key, empty when there is none.\<close>

definition dep_set :: "rstate \<Rightarrow> nat \<Rightarrow> string \<Rightarrow> closure list" where
  "dep_set s target key =
     (case typeDependencyMap s target of
        None \<Rightarrow> []
      | Some depMap \<Rightarrow> (case depMap key of None \<Rightarrow> [] | Some ds \<Rightarrow> ds))"

text \<open>\<open>Reflect.set(target, key, value, receiver)\<close> on a plain target: the result and the state.\<close>

definition reflect_set :: "nat \<Rightarrow> string \<Rightarrow> jsval \<Rightarrow> rstate \<Rightarrow> bool \<times> rstate" where
  "reflect_set target key v s =
     (if frozen (heap s target) then (False, s)
      else (True, s\<lparr>heap := (heap s)(target := (heap s target)\<lparr>properties := AList.update key v (properties (heap s target))\<rparr>)\<rparr>))"

text \<open>The \<open>get\<close> trap of the proxy: the value read and the state.\<close>

definition reactive_get :: "nat \<Rightarrow> string \<Rightarrow> rstate \<Rightarrow> jsval \<times> rstate" where
  "reactive_get target key s = (prop_get (properties (heap (track target key s) target)) key, track target key s)"

text \<open>
  Callbacks may call back into the library without bound, so every call takes a bound on the
  calls and statements that may still follow it and answers \<open>None\<close> when the bound is
  reached.
  \<open>exec\<close> runs the body of a callback, \<open>step\<close> one statement of it; \<open>forEach\<close> is
  \<open>Set.prototype.forEach\<close>, which visits the members in insertion order, those added during
  the visit included; \<open>reactive_set\<close> is the \<open>set\<close> trap of the proxy.  An assignment
  whose trap returns \<open>false\<close> throws a \<open>TypeError\<close>, the module being strict code.
\<close>

function (sequential) exec :: "nat \<Rightarrow> cmd list \<Rightarrow> rstate \<Rightarrow> (unit completion \<times> rstate) option"
and step :: "nat \<Rightarrow> cmd \<Rightarrow> rstate \<Rightarrow> (unit completion \<times> rstate) option"
and effect :: "nat \<Rightarrow> cmd list \<Rightarrow> rstate \<Rightarrow> (unit completion \<times> rstate) option"
and effectFn :: "nat \<Rightarrow> closure \<Rightarrow> rstate \<Rightarrow> (unit completion \<times> rstate) option"
and trigger :: "nat \<Rightarrow> nat \<Rightarrow> string \<Rightarrow> rstate \<Rightarrow> (unit completion \<times> rstate) option"
and forEach :: "nat \<Rightarrow> nat \<Rightarrow> string \<Rightarrow> nat \<Rightarrow> rstate \<Rightarrow> (unit completion \<times> rstate) option"
and reactive_set :: "nat \<Rightarrow> nat \<Rightarrow> string \<Rightarrow> jsval \<Rightarrow> rstate \<Rightarrow> (bool completion \<times> rstate) option"
where
  "exec n [] s = Some (Returned (), s)"
| "exec 0 (c # cs) s = None"
| "exec (Suc n) (c # cs) s =
     (case step n c s of
        None \<Rightarrow> None
      | Some (Thrown e, s') \<Rightarrow> Some (Thrown e, s')
      | Some (Returned u, s') \<Rightarrow> exec n cs s')"
| "step n (Get target key) s = Some (Returned (), snd (reactive_get target key s))"
| "step n (Throw msg) s = Some (Thrown (Error msg), s)"
| "step n (Track target key) s = Some (Returned (), track target key s)"
| "step 0 (Set target key v) s = None"
| "step (Suc n) (Set target key v) s =
     (case reactive_set n target key v s of
        None \<Rightarrow> None
      | Some (Thrown e, s') \<Rightarrow> Some (Thrown e, s')
      | Some (Returned result, s') \<Rightarrow>
          if result then Some (Returned (), s') else Some (Thrown TypeError, s'))"
| "step 0 (Effect fn) s = None"
| "step (Suc n) (Effect fn) s = effect n fn s"
| "step 0 (Trigger target key) s = None"
| "step (Suc n) (Trigger target key) s = trigger n target key s"
| "effect 0 fn s = None"
| "effect (Suc n) fn s = effectFn n (next_id s, fn) (s\<lparr>next_id := Suc (next_id s)\<rparr>)"
| "effectFn 0 self s = None"
| "effectFn (Suc n) self s =
     (case exec n (snd self) (s\<lparr>activeEffect := Some self, calls := calls s @ [fst self]\<rparr>) of
        None \<Rightarrow> None
      | Some (Thrown e, s') \<Rightarrow> Some (Thrown e, s')
      | Some (Returned u, s') \<Rightarrow> Some (Returned (), s'\<lparr>activeEffect := None\<rparr>))"
| "trigger 0 target key s = None"
| "trigger (Suc n) target key s =
     (case typeDependencyMap s target of
        None \<Rightarrow> Some (Returned (), s)
      | Some depMap \<Rightarrow>
         (case depMap key of
            None \<Rightarrow> Some (Returned (), s)
          | Some ds \<Rightarrow> forEach n target key 0 s))"
| "forEach 0 target key i s = None"
| "forEach (Suc n) target key i s =
     (if i < length (dep_set s target key) then
        (case effectFn n (dep_set s target key ! i) s of
           None \<Rightarrow> None
         | Some (Thrown e, s') \<Rightarrow> Some (Thrown e, s')
         | Some (Returned u, s') \<Rightarrow> forEach n target key (Suc i) s')
      else Some (Returned (), s))"
| "reactive_set 0 target key v s = None"
| "reactive_set (Suc n) target key v s =
     (let (result, s1) = reflect_set target key v s in
      if result then
        (case trigger n target key s1 of
           None \<Rightarrow> None
         | Some (Thrown e, s') \<Rightarrow> Some (Thrown e, s')
         | Some (Returned u, s') \<Rightarrow> Some (Returned result, s'))
      else Some (Returned result, s1))"
  by pat_completeness auto
termination
  by (relation "measure (\<lambda>x. case x of
          Inl (Inl a) \<Rightarrow> fst a
        | Inl (Inr (Inl a)) \<Rightarrow> fst a
        | Inl (Inr (Inr a)) \<Rightarrow> fst a
        | Inr (Inl (Inl a)) \<Rightarrow> fst a
        | Inr (Inl (Inr a)) \<Rightarrow> fst a
        | Inr (Inr (Inl a)) \<Rightarrow> fst a
        | Inr (Inr (Inr a)) \<Rightarrow> fst a)") auto

text \<open>The state when the module has been loaded: no active effect, no dependency, no call.\<close>

definition init :: "(nat \<Rightarrow> jsobject) \<Rightarrow> rstate" where
  "init objs = \<lparr>activeEffect = None, typeDependencyMap = Map.empty, heap = objs, next_id = 0, calls = []\<rparr>"

subsection \<open>Observations and invariants of the reactive state\<close>

text \<open>What a run returned, and a component of the state it ended in.\<close>

definition outcome :: "('a completion \<times> rstate) option \<Rightarrow> 'a completion option" where
  "outcome r = map_option fst r"

definition final :: "(rstate \<Rightarrow> 'b) \<Rightarrow> ('a completion \<times> rstate) option \<Rightarrow> 'b option" where
  "final f r = map_option (\<lambda>(c, s). f s) r"


definition subscribers :: "nat \<Rightarrow> string \<Rightarrow> rstate \<Rightarrow> nat list" where
  "subscribers target key s = map fst (dep_set s target key)"

text \<open>No subscriber set holds a closure twice.\<close>

definition distinct_deps :: "rstate \<Rightarrow> bool" where
  "distinct_deps s = (\<forall>target key. distinct (map fst (dep_set s target key)))"

text \<open>Every call that returns within the bound \<open>n\<close> relates the state before to the state after.\<close>

definition preserved :: "(rstate \<Rightarrow> rstate \<Rightarrow> bool) \<Rightarrow> nat \<Rightarrow> bool" where
  "preserved R n =
     ((\<forall>cs s c s'. exec n cs s = Some (c, s') \<longrightarrow> R s s') \<and>
      (\<forall>cm s c s'. step n cm s = Some (c, s') \<longrightarrow> R s s') \<and>
      (\<forall>fn s c s'. effect n fn s = Some (c, s') \<longrightarrow> R s s') \<and>
      (\<forall>e s c s'. effectFn n e s = Some (c, s') \<longrightarrow> R s s') \<and>
      (\<forall>t k s c s'. trigger n t k s = Some (c, s') \<longrightarrow> R s s') \<and>
      (\<forall>t k i s c s'. forEach n t k i s = Some (c, s') \<longrightarrow> R s s') \<and>
      (\<forall>t k v s c s'. reactive_set n t k v s = Some (c, s') \<longrightarrow> R s s'))"

text \<open>
  Example states: every object is \<open>{count: 0}\<close>; in \<open>subscribed\<close> one closure that reads
  \<open>count\<close> of object \<open>0\<close> has run and is recorded; in \<open>running\<close> a closure is active.
\<close>

definition counter :: "nat \<Rightarrow> jsobject" where
  "counter target = \<lparr>properties = [(''count'', JNum 0)], frozen = False\<rparr>"


definition running :: rstate where
  "running =
     \<lparr>activeEffect = Some (0, [Effect [], Get 0 ''count'']),
      typeDependencyMap = Map.empty, heap = counter, next_id = 1, calls = [0]\<rparr>"

section \<open>Properties of \<open>h\<close>\<close>

lemma as_children_leaves: "as_children (map Leaf cs) = Some cs"
  by (induction cs) simp_all

lemma flat_inf_leaves:
  "filter not_null (flat_inf cs) = map Leaf (concat (map leaves cs))"
  by (induction cs rule: flat_inf.induct) simp_all

text \<open>
  C3.  For every argument list of virtual nodes, strings, \<open>null\<close>, \<open>undefined\<close> and arrays
  of these nested to any depth, the object that \<open>h\<close> returns has the given tag and
  attributes, and its \<open>children\<close> array holds exactly the leaves of the arguments in
  order, \<open>null\<close> and \<open>undefined\<close> removed; so the object is a virtual node with these
  children.  \<open>h\<close> calls nothing of the host and reads no variable but its parameters, which
  is why its embedding takes no host state and returns none.
\<close>

theorem h_flatten:
  "h ty ps cs = HNode ty ps (map Leaf (concat (map leaves cs))) \<and>
   as_VNode (h ty ps cs) = Some (VNode ty ps (concat (map leaves cs)))"
  by (simp add: h_def as_VNode_def flat_inf_leaves as_children_leaves)

section \<open>Properties of the values\<close>

lemma normal_not_NaN: "normal m e \<noteq> NNaN"
  by (induction m e rule: normal.induct) (subst normal.simps, simp)

lemma negate_NaN: "(negate x = NNaN) = (x = NNaN)"
  by (cases x) simp_all

lemma round_pos_not_NaN: "round_pos p q \<noteq> NNaN"
  by (simp add: round_pos_def Let_def normal_not_NaN)

lemma number_of_int_not_NaN: "number_of_int n \<noteq> NNaN"
  by (simp add: number_of_int_def round_double_def negate_NaN round_pos_not_NaN)

lemma loose_eq_refl: "loose_eq v v = (v \<noteq> JNaN)"
  by (cases v) (auto simp: loose_eq_def Let_def number_of_int_not_NaN)

lemma starts_with_on_own: "starts_with_on key \<Longrightarrow> key \<notin> set proto_keys"
  by (auto simp: starts_with_on_def proto_keys_def)

lemma is_function_truthy: "is_function v \<Longrightarrow> truthy v"
  by (cases v) simp_all

lemma is_function_object: "is_function v \<Longrightarrow> is_object v"
  by (cases v) simp_all

text \<open>
  Loose equality compares numbers as doubles and reads a string as a numeric literal; the
  string form of a number switches to exponent notation from \<open>10\<^sup>2\<^sup>1\<close>.
\<close>

lemma number_examples:
  "loose_eq (JNum 9007199254740993) (JNum 9007199254740992) \<and>
   loose_eq (JNum 16) (JStr ''0X10'') \<and> loose_eq (JNum 5) (JStr ''0b101'') \<and>
   loose_eq (JNum 0) (JStr []) \<and> loose_eq (JNum 1) (JStr ''0.99999999999999999999'') \<and>
   \<not> loose_eq (JNum 1) (JStr ''1px'') \<and> \<not> loose_eq (JNum (- 16)) (JStr ''-0x10'') \<and>
   \<not> loose_eq JNaN (JStr ''NaN'') \<and> \<not> loose_eq JNull (JNum 0) \<and>
   to_string (JNum 1000000000000000000000) = ''1e+21''"
  by code_simp

section \<open>Properties of \<open>updateProps\<close>\<close>

lemma invoke_all_append:
  "invoke_all (xs @ ys) st = (case invoke_all xs st of Inl e \<Rightarrow> Inl e | Inr st' \<Rightarrow> invoke_all ys st')"
  by (induction xs arbitrary: st) (auto split: sum.splits)

lemma set_prop_invoke_all: "set_prop nw od key st = invoke_all (set_ops nw od key) st"
  by (auto simp: set_prop_def set_ops_def ebind_def split: sum.splits)

lemma remove_prop_invoke_all: "remove_prop nw od key st = invoke_all (remove_ops nw od key) st"
  by (auto simp: remove_prop_def remove_ops_def split: sum.splits)

lemma for_in_invoke_all:
  "(\<And>key st. body key st = invoke_all (f key) st) \<Longrightarrow>
   for_in body keys st = invoke_all (concat (map f keys)) st"
  by (induction keys arbitrary: st) (auto simp: invoke_all_append split: sum.splits)

lemma updateProps_invoke_all:
  "updateProps el nw od = invoke_all (minimal_ops (default_props nw) (default_props od)) (el, [])"
proof -
  let ?n = "default_props nw" and ?o = "default_props od"
  have a: "for_in (set_prop ?n ?o) keys st = invoke_all (concat (map (set_ops ?n ?o) keys)) st" for keys st
    by (rule for_in_invoke_all) (rule set_prop_invoke_all)
  have b: "for_in (remove_prop ?n ?o) keys st = invoke_all (concat (map (remove_ops ?n ?o) keys)) st" for keys st
    by (rule for_in_invoke_all) (rule remove_prop_invoke_all)
  show ?thesis
    unfolding updateProps_def Let_def ebind_def a b minimal_ops_def invoke_all_append ..
qed

lemma invoke_all_Some:
  "invoke_all ops (Some d, acc) =
     (case perform_all ops d of Inl e \<Rightarrow> Inl e | Inr d' \<Rightarrow> Inr (Some d', acc @ ops))"
  by (induction ops arbitrary: d acc) (auto simp: invoke_def split: sum.splits)

lemma invoke_all_None:
  "invoke_all ops (None, acc) = (if ops = [] then Inr (None, acc) else Inl TypeError)"
  by (cases ops) (auto simp: invoke_def)

lemma perform_accepted:
  "accepted op \<Longrightarrow> \<exists>as' ls'. perform op (DElem t as ls ks) = Inr (DElem t as' ls' ks)"
  by (cases op) (auto simp: listen_def)

lemma perform_all_element:
  "\<forall>op \<in> set ops. accepted op \<Longrightarrow>
   \<exists>as' ls'. perform_all ops (DElem t as ls ks) = Inr (DElem t as' ls' ks)"
proof (induction ops arbitrary: as ls)
  case Nil
  then show ?case by simp
next
  case (Cons op ops)
  then obtain as1 ls1 where "perform op (DElem t as ls ks) = Inr (DElem t as1 ls1 ks)"
    using perform_accepted [of op t as ls ks] by auto
  with Cons show ?case by simp
qed

lemma accepted_not_structural: "accepted op \<Longrightarrow> \<not> structural op"
  by (cases op) simp_all

lemma minimal_ops_not_structural: "\<forall>op \<in> set (minimal_ops nw od). \<not> structural op"
  by (auto simp: minimal_ops_def set_ops_def remove_ops_def split: if_splits)

lemma prop_in_keys: "key \<in> fst ` set ps \<Longrightarrow> prop_in key ps"
  by (auto simp: prop_in_def map_of_eq_None_iff)

lemma prop_get_own: "key \<in> fst ` set ps \<Longrightarrow> (key, prop_get ps key) \<in> set ps"
proof -
  assume "key \<in> fst ` set ps"
  then obtain v where "map_of ps key = Some v"
    by (cases "map_of ps key") (auto simp: map_of_eq_None_iff)
  then show ?thesis by (auto simp: prop_get_def dest: map_of_SomeD)
qed

lemma prop_get_claimed:
  "key \<notin> set proto_keys \<Longrightarrow> prop_get ps key = claimed_value ps key"
  by (simp add: prop_get_def claimed_value_def split: option.splits)

lemma prop_in_claimed:
  "key \<notin> set proto_keys \<Longrightarrow> prop_in key ps = (map_of ps key \<noteq> None)"
  by (simp add: prop_in_def)

lemma minimal_ops_claimed:
  assumes ec: "events_callable od" and kn: "own_keys_only nw" and ko: "own_keys_only od"
  shows "minimal_ops nw od = claimed_ops nw od"
proof -
  have f: "is_function (prop_get od key)" if "key \<in> fst ` set od" "starts_with_on key" for key
    using ec prop_get_own [OF that(1)] that(2) by (auto simp: events_callable_def)
  have "set_ops nw od key = claimed_set_ops nw od key" if k: "key \<in> fst ` set nw" for key
  proof -
    from k kn have np: "key \<notin> set proto_keys" by (auto simp: own_keys_only_def)
    note g = prop_get_claimed [OF np]
    show ?thesis
    proof (cases "key \<in> fst ` set od")
      case True
      then show ?thesis
        using f [OF True] by (auto simp: set_ops_def claimed_set_ops_def g [symmetric] is_function_truthy)
    next
      case False
      then have "map_of od key = None"
        by (simp add: map_of_eq_None_iff)
      then have "claimed_value od key = JUndefined"
        by (simp add: claimed_value_def)
      then show ?thesis
        by (simp add: set_ops_def claimed_set_ops_def g)
    qed
  qed
  moreover have "remove_ops nw od key = claimed_remove_ops nw od key" if k: "key \<in> fst ` set od" for key
  proof -
    from k ko have np: "key \<notin> set proto_keys" by (auto simp: own_keys_only_def)
    show ?thesis
      using f [OF k] by (simp add: remove_ops_def claimed_remove_ops_def prop_in_claimed [OF np] prop_get_claimed [OF np])
  qed
  ultimately have "map (set_ops nw od) (map fst nw) = map (claimed_set_ops nw od) (map fst nw)"
    and "map (remove_ops nw od) (map fst od) = map (claimed_remove_ops nw od) (map fst od)"
    by auto
  then show ?thesis
    unfolding minimal_ops_def claimed_ops_def by (simp only:)
qed

lemma set_ops_accepted:
  assumes an: "attribute_names nw" and k: "key \<in> fst ` set nw"
    and old: "starts_with_on key \<Longrightarrow> truthy (prop_get od key) \<Longrightarrow> is_object (prop_get od key)"
  shows "\<forall>op \<in> set (set_ops nw od key). accepted op"
proof -
  from prop_get_own [OF k] an
  have "(starts_with_on key \<and> is_function (prop_get nw key)) \<or> valid_name key"
    by (auto simp: attribute_names_def)
  then show ?thesis
    using old by (auto simp: set_ops_def is_function_object)
qed

lemma remove_ops_accepted: "\<forall>op \<in> set (remove_ops nw od key). accepted op"
  by (auto simp: remove_ops_def is_function_object)

lemma minimal_ops_accepted:
  assumes an: "attribute_names nw" and ec: "events_callable od"
  shows "\<forall>op \<in> set (minimal_ops nw od). accepted op"
proof -
  have old: "is_object (prop_get od key)" if "starts_with_on key" "truthy (prop_get od key)" for key
  proof (cases "key \<in> fst ` set od")
    case True
    from prop_get_own [OF True] ec that(1) show ?thesis
      by (auto simp: events_callable_def is_function_object)
  next
    case False
    then have "map_of od key = None"
      by (simp add: map_of_eq_None_iff)
    then have "prop_get od key = JUndefined"
      using starts_with_on_own [OF that(1)] by (simp add: prop_get_def)
    with that(2) show ?thesis by simp
  qed
  show ?thesis
    using set_ops_accepted [OF an _ old] remove_ops_accepted
    by (auto simp: minimal_ops_def)
qed

lemma minimal_ops_same:
  assumes an: "attribute_names ps"
  shows "\<forall>op \<in> set (minimal_ops ps ps). accepted op"
proof -
  have "set_ops ps ps key = [] \<or> set_ops ps ps key = [SetAttribute key JNaN] \<and> valid_name key"
    if k: "key \<in> fst ` set ps" for key
  proof (cases "prop_get ps key = JNaN")
    case True
    with prop_get_own [OF k] an have "valid_name key"
      by (auto simp: attribute_names_def)
    with True show ?thesis by (simp add: set_ops_def loose_eq_refl)
  next
    case False
    then show ?thesis by (simp add: set_ops_def loose_eq_refl)
  qed
  moreover have "remove_ops ps ps key = []" if "key \<in> fst ` set ps" for key
    using prop_in_keys [OF that] by (simp add: remove_ops_def)
  ultimately show ?thesis
    by (fastforce simp: minimal_ops_def)
qed

lemma minimal_ops_same_nan_free:
  "JNaN \<notin> snd ` set ps \<Longrightarrow> minimal_ops ps ps = []"
proof -
  assume nf: "JNaN \<notin> snd ` set ps"
  have "set_ops ps ps key = []" if "key \<in> fst ` set ps" for key
  proof -
    from prop_get_own [OF that] nf have "prop_get ps key \<noteq> JNaN"
      by force
    then show ?thesis by (simp add: set_ops_def loose_eq_refl)
  qed
  moreover have "remove_ops ps ps key = []" if "key \<in> fst ` set ps" for key
    using prop_in_keys [OF that] by (simp add: remove_ops_def)
  ultimately show ?thesis
    by (simp add: minimal_ops_def)
qed

lemma updateProps_same_nan_free:
  "nan_free_props ps \<Longrightarrow> updateProps el ps ps = Inr (el, [])"
proof (cases ps)
  case None
  then show ?thesis by (simp add: updateProps_invoke_all minimal_ops_def)
next
  case (Some p)
  assume "nan_free_props ps"
  with Some show ?thesis by (simp add: updateProps_invoke_all minimal_ops_same_nan_free)
qed

lemma updateProps_element:
  assumes "\<forall>op \<in> set (minimal_ops (default_props nw) (default_props od)). accepted op"
  shows "\<exists>as' ls'. updateProps (Some (DElem t as ls ks)) nw od
      = Inr (Some (DElem t as' ls' ks), minimal_ops (default_props nw) (default_props od))"
proof -
  let ?ops = "minimal_ops (default_props nw) (default_props od)"
  obtain as' ls' where "perform_all ?ops (DElem t as ls ks) = Inr (DElem t as' ls' ks)"
    using perform_all_element [OF assms] by blast
  then show ?thesis
    by (simp add: updateProps_invoke_all invoke_all_Some)
qed

lemma updateProps_same_element:
  assumes "props_ok ps"
  shows "\<exists>as' ls' ops. updateProps (Some (DElem t as ls ks)) ps ps = Inr (Some (DElem t as' ls' ks), ops)
      \<and> (\<forall>op \<in> set ops. \<not> structural op)"
proof -
  have "\<forall>op \<in> set (minimal_ops (default_props ps) (default_props ps)). accepted op"
  proof (cases ps)
    case None
    then show ?thesis by (simp add: minimal_ops_def)
  next
    case (Some p)
    with assms show ?thesis using minimal_ops_same [of p] by simp
  qed
  from updateProps_element [OF this] minimal_ops_not_structural
  show ?thesis by blast
qed

text \<open>
  C5, as amended.  On every live node, \<open>updateProps\<close> makes the calls of its two loops in
  order, up to the first that fails.  Where every event key of the old mapping has a
  callable value, no key of the two mappings is the name of a member of
  \<open>Object.prototype\<close>, and every key of the new mapping that is set as an attribute is a
  name, no call fails on an element, the children are untouched, and the calls made are
  exactly those of the minimal diff: each key of the new mapping whose value differs
  (\<open>!=\<close>) from the old one is set (for an event key with a callable new value, the old
  listener is removed if there was one, then the new listener added); each key that only the
  old mapping has gets its listener (event key) or attribute removed; a key with equal
  values causes no call.  From \<open>{a: 1, b: 2}\<close> to \<open>{b: 2, c: 3}\<close> the calls are: set \<open>c\<close>
  to \<open>3\<close>, remove \<open>a\<close>.
\<close>

theorem updateProps_minimal:
  "updateProps (Some el) newProps oldProps =
     (case perform_all (minimal_ops (default_props newProps) (default_props oldProps)) el of
        Inl e \<Rightarrow> Inl e
      | Inr el' \<Rightarrow> Inr (Some el', minimal_ops (default_props newProps) (default_props oldProps))) \<and>
   (events_callable (default_props oldProps) \<longrightarrow>
    own_keys_only (default_props newProps) \<longrightarrow> own_keys_only (default_props oldProps) \<longrightarrow>
    attribute_names (default_props newProps) \<longrightarrow>
      minimal_ops (default_props newProps) (default_props oldProps)
        = claimed_ops (default_props newProps) (default_props oldProps) \<and>
      (\<exists>as' ls'. updateProps (Some (DElem t as ls ks)) newProps oldProps
          = Inr (Some (DElem t as' ls' ks), claimed_ops (default_props newProps) (default_props oldProps)))) \<and>
   updateProps (Some (DElem t as ls ks))
     (Some [(''b'', JNum 2), (''c'', JNum 3)]) (Some [(''a'', JNum 1), (''b'', JNum 2)])
     = Inr (Some (DElem t (AList.delete ''a'' (AList.update ''c'' ''3'' as)) ls ks),
            [SetAttribute ''c'' (JNum 3), RemoveAttribute ''a''])"
proof -
  let ?nw = "default_props newProps" and ?od = "default_props oldProps"
  let ?ops = "minimal_ops ?nw ?od"
  have a: "updateProps (Some el) newProps oldProps =
     (case perform_all ?ops el of Inl e \<Rightarrow> Inl e | Inr el' \<Rightarrow> Inr (Some el', ?ops))"
    by (simp add: updateProps_invoke_all invoke_all_Some split: sum.splits)
  have b: "?ops = claimed_ops ?nw ?od \<and>
      (\<exists>as' ls'. updateProps (Some (DElem t as ls ks)) newProps oldProps
          = Inr (Some (DElem t as' ls' ks), claimed_ops ?nw ?od))"
    if ec: "events_callable ?od" and kn: "own_keys_only ?nw" and ko: "own_keys_only ?od"
      and an: "attribute_names ?nw"
  proof -
    have eq: "?ops = claimed_ops ?nw ?od"
      by (rule minimal_ops_claimed [OF ec kn ko])
    from updateProps_element [OF minimal_ops_accepted [OF an ec], of t as ls ks] eq
    show ?thesis by simp
  qed
  have ops: "minimal_ops [(''b'', JNum 2), (''c'', JNum 3)] [(''a'', JNum 1), (''b'', JNum 2)]
      = [SetAttribute ''c'' (JNum 3), RemoveAttribute ''a'']"
    by code_simp
  have ts: "number_to_string (number_of_int 3) = ''3''"
    by code_simp
  have vn: "valid_name ''c''" and lc: "ascii_lower CHR ''c'' = CHR ''c''" and la: "ascii_lower CHR ''a'' = CHR ''a''"
    by code_simp+
  have c: "updateProps (Some (DElem t as ls ks))
     (Some [(''b'', JNum 2), (''c'', JNum 3)]) (Some [(''a'', JNum 1), (''b'', JNum 2)])
     = Inr (Some (DElem t (AList.delete ''a'' (AList.update ''c'' ''3'' as)) ls ks),
            [SetAttribute ''c'' (JNum 3), RemoveAttribute ''a''])"
    by (simp add: updateProps_invoke_all invoke_all_Some ops ts vn lc la)
  from a b c show ?thesis by (intro conjI impI) simp_all
qed

theorem updateProps_minimal_witness:
  "events_callable [(''onClick'', JFun 1 ''f''), (''a'', JNum 1)] \<and>
   own_keys_only [(''onClick'', JFun 2 ''g''), (''c'', JNum 3)] \<and>
   own_keys_only [(''onClick'', JFun 1 ''f''), (''a'', JNum 1)] \<and>
   attribute_names [(''onClick'', JFun 2 ''g''), (''c'', JNum 3)] \<and>
   claimed_ops [(''onClick'', JFun 2 ''g''), (''c'', JNum 3)] [(''onClick'', JFun 1 ''f''), (''a'', JNum 1)]
     = [RemoveEventListener ''click'' (JFun 1 ''f''), AddEventListener ''click'' (JFun 2 ''g''),
        SetAttribute ''c'' (JNum 3), RemoveAttribute ''a''] \<and>
   (\<exists>as' ls'. updateProps (Some (DElem ''button'' [(''a'', ''1'')] [(''click'', JFun 1 ''f'')] []))
        (Some [(''onClick'', JFun 2 ''g''), (''c'', JNum 3)]) (Some [(''onClick'', JFun 1 ''f''), (''a'', JNum 1)])
      = Inr (Some (DElem ''button'' as' ls' []),
            [RemoveEventListener ''click'' (JFun 1 ''f''), AddEventListener ''click'' (JFun 2 ''g''),
             SetAttribute ''c'' (JNum 3), RemoveAttribute ''a''])) \<and>
   updateProps (Some (DElem ''button'' [(''a'', ''1'')] [(''click'', JFun 1 ''f'')] []))
        (Some [(''onClick'', JFun 2 ''g''), (''c'', JNum 3)]) (Some [(''onClick'', JFun 1 ''f''), (''a'', JNum 1)])
      = Inr (Some (DElem ''button'' [(''c'', ''3'')] [(''click'', JFun 2 ''g'')] []),
            [RemoveEventListener ''click'' (JFun 1 ''f''), AddEventListener ''click'' (JFun 2 ''g''),
             SetAttribute ''c'' (JNum 3), RemoveAttribute ''a''])"
proof -
  let ?nw = "[(''onClick'', JFun 2 ''g''), (''c'', JNum 3)]"
  let ?od = "[(''onClick'', JFun 1 ''f''), (''a'', JNum 1)]"
  let ?el = "DElem ''button'' [(''a'', ''1'')] [(''click'', JFun 1 ''f'')] []"
  have ec: "events_callable ?od"
    by (simp add: events_callable_def starts_with_on_def)
  have kn: "own_keys_only ?nw" and ko: "own_keys_only ?od"
    by (simp_all add: own_keys_only_def proto_keys_def)
  have vn: "valid_name ''c''"
    by code_simp
  have an: "attribute_names ?nw"
    by (simp add: attribute_names_def starts_with_on_def vn)
  have cl: "claimed_ops ?nw ?od
     = [RemoveEventListener ''click'' (JFun 1 ''f''), AddEventListener ''click'' (JFun 2 ''g''),
        SetAttribute ''c'' (JNum 3), RemoveAttribute ''a'']"
    by code_simp
  have pf: "perform_all [RemoveEventListener ''click'' (JFun 1 ''f''), AddEventListener ''click'' (JFun 2 ''g''),
        SetAttribute ''c'' (JNum 3), RemoveAttribute ''a''] ?el
      = Inr (DElem ''button'' [(''c'', ''3'')] [(''click'', JFun 2 ''g'')] [])"
    by code_simp
  note inst = updateProps_minimal [where newProps = "Some ?nw" and oldProps = "Some ?od"
      and el = ?el and t = "''button''" and as = "[(''a'', ''1'')]" and ls = "[(''click'', JFun 1 ''f'')]" and ks = "[]"]
  note i1 = inst [THEN conjunct1, unfolded default_props.simps]
  note i2 = inst [THEN conjunct2, THEN conjunct1, unfolded default_props.simps, rule_format, OF ec kn ko an]
  from i2 [THEN conjunct2]
  have ex: "\<exists>as' ls'. updateProps (Some ?el) (Some ?nw) (Some ?od)
      = Inr (Some (DElem ''button'' as' ls' []),
            [RemoveEventListener ''click'' (JFun 1 ''f''), AddEventListener ''click'' (JFun 2 ''g''),
             SetAttribute ''c'' (JNum 3), RemoveAttribute ''a''])"
    by (simp only: cl)
  from i1
  have up: "updateProps (Some ?el) (Some ?nw) (Some ?od)
      = Inr (Some (DElem ''button'' [(''c'', ''3'')] [(''click'', JFun 2 ''g'')] []),
            [RemoveEventListener ''click'' (JFun 1 ''f''), AddEventListener ''click'' (JFun 2 ''g''),
             SetAttribute ''c'' (JNum 3), RemoveAttribute ''a''])"
    by (simp only: i2 [THEN conjunct1] cl pf sum.case)
  from ec kn ko an cl ex up show ?thesis by (intro conjI)
qed

text \<open>
  The claim as stated fails: the key \<open>onclick\<close>, present only in the old mapping with the
  string \<open>"go()"\<close> for value, is an event key, yet \<open>updateProps\<close> removes the attribute
  \<open>onclick\<close> and no listener.
\<close>

theorem updateProps_event_attribute_counterexample:
  "updateProps (Some (DElem ''button'' [(''onclick'', ''go()'')] [] []))
     (Some []) (Some [(''onclick'', JStr ''go()'')])
     = Inr (Some (DElem ''button'' [] [] []), [RemoveAttribute ''onclick'']) \<and>
   claimed_ops [] [(''onclick'', JStr ''go()'')] = [RemoveEventListener ''click'' (JStr ''go()'')]"
  by code_simp

text \<open>
  The other conditions are needed as well.  A key that \<open>Object.prototype\<close> has is in
  every mapping: \<open>constructor\<close>, a key of the old mapping alone, is not removed.  A key
  that is no name is refused by \<open>setAttribute\<close>.  An old value of an event key that is a
  string is refused by \<open>removeEventListener\<close>, and the new listener is not added.
\<close>

lemma updateProps_inherited_key_example:
  "updateProps (Some (DElem ''p'' [(''constructor'', ''x'')] [] []))
     (Some []) (Some [(''constructor'', JStr ''x'')])
     = Inr (Some (DElem ''p'' [(''constructor'', ''x'')] [] []), []) \<and>
   claimed_ops [] [(''constructor'', JStr ''x'')] = [RemoveAttribute ''constructor'']"
  by code_simp

lemma updateProps_invalid_name_example:
  "updateProps (Some (DElem ''p'' [] [] [])) (Some [(''a b'', JNum 1)]) (Some [])
     = Inl InvalidCharacterError"
  by code_simp

lemma updateProps_string_listener_example:
  "updateProps (Some (DElem ''p'' [(''onclick'', ''go()'')] [] []))
     (Some [(''onclick'', JFun 1 ''f'')]) (Some [(''onclick'', JStr ''go()'')])
     = Inl TypeError"
  by code_simp

section \<open>Properties of \<open>patch\<close>\<close>

lemma structural_calls_append [simp]:
  "structural_calls (a @ b) = structural_calls a @ structural_calls b"
  by (simp add: structural_calls_def)

lemma structural_calls_at_child [simp]:
  "structural_calls (at_child i lg) = at_child i (structural_calls lg)"
  by (induction lg) (auto simp: structural_calls_def at_child_def)

lemma structural_calls_here:
  "\<forall>op \<in> set ops. \<not> structural op \<Longrightarrow> structural_calls (here ops) = []"
  by (induction ops) (auto simp: structural_calls_def here_def)

lemma at_child_Nil [simp]: "at_child i [] = []"
  by (simp add: at_child_def)

lemma here_Nil [simp]: "here [] = []"
  by (simp add: here_def)

lemma structural_calls_Nil [simp]: "structural_calls [] = []"
  by (simp add: structural_calls_def)

lemma shaped_children_nth:
  "shaped_children cs ks \<Longrightarrow> i < length cs \<Longrightarrow> i < length ks \<and> shaped_child (cs ! i) (ks ! i)"
proof (induction cs arbitrary: ks i)
  case Nil
  then show ?case by simp
next
  case (Cons c cs)
  then show ?case by (cases ks; cases i) auto
qed

lemma shaped_children_update:
  "shaped_children cs ks \<Longrightarrow> i < length cs \<Longrightarrow> shaped_child (cs ! i) d \<Longrightarrow>
   shaped_children cs (ks[i := d])"
proof (induction cs arbitrary: ks i)
  case Nil
  then show ?case by simp
next
  case (Cons c cs)
  then show ?case by (cases ks; cases i) auto
qed

lemma nth_opt_append: "i < length cs \<Longrightarrow> nth_opt (cs @ xs) i = Some (cs ! i)"
  by (simp add: nth_opt_def nth_append)

lemma loop_done: "patch_children el ncs ocs i mx = Inr (el, [])" if "\<not> i < mx"
  using that by (subst patch_children.simps) simp

lemma prepend_log_nil:
  "(case r of Inl er \<Rightarrow> Inl er | Inr (e'', lg') \<Rightarrow> Inr (e'', [] @ lg')) = r"
  by (auto split: sum.splits)

lemma prepend_log_assoc:
  "(case (case r of Inl er \<Rightarrow> Inl er | Inr (e'', lg') \<Rightarrow> Inr (e'', b @ lg')) of
      Inl er \<Rightarrow> Inl er | Inr (e'', lg') \<Rightarrow> Inr (e'', a @ lg'))
   = (case r of Inl er \<Rightarrow> Inl er | Inr (e'', lg') \<Rightarrow> Inr (e'', (a @ b) @ lg'))"
  by (auto split: sum.splits)

lemma prefix_loop:
  assumes ok: "\<forall>c \<in> set cs. same_ok_child c"
    and len: "length cs \<le> mx"
  shows "shaped_children cs ks \<Longrightarrow> i \<le> length cs \<Longrightarrow>
    \<exists>ks' lg. patch_children (Some (DElem t as ls ks)) (cs @ nx) (cs @ ox) i mx
            = (case patch_children (Some (DElem t as ls ks')) (cs @ nx) (cs @ ox) (length cs) mx of
                 Inl er \<Rightarrow> Inl er | Inr (e'', lg') \<Rightarrow> Inr (e'', lg @ lg'))
        \<and> length ks' = length ks \<and> drop (length cs) ks' = drop (length cs) ks
        \<and> shaped_children cs ks' \<and> structural_calls lg = []
        \<and> (list_all nan_free_child cs \<longrightarrow> ks' = ks \<and> lg = [])"
proof (induction "length cs - i" arbitrary: i ks)
  case 0
  then have "i = length cs" by simp
  with 0 show ?case
    by (intro exI [of _ ks] exI [of _ "[]"]) (simp add: prepend_log_nil)
next
  case (Suc k)
  then have i: "i < length cs" by simp
  with len have imx: "i < mx" by simp
  from shaped_children_nth [OF Suc.prems(1) i]
  have iks: "i < length ks" and sh: "shaped_child (cs ! i) (ks ! i)" by simp_all
  have nn: "nth_opt (cs @ nx) i = Some (cs ! i)" and no: "nth_opt (cs @ ox) i = Some (cs ! i)"
    using i by (simp_all add: nth_opt_append)
  have k: "k = length cs - Suc i" using Suc.hyps(2) by simp
  have le: "Suc i \<le> length cs" using i by simp
  show ?case
  proof (cases "cs ! i")
    case (CText s)
    have step: "patch_children (Some (DElem t as ls ks)) (cs @ nx) (cs @ ox) i mx
        = patch_children (Some (DElem t as ls ks)) (cs @ nx) (cs @ ox) (Suc i) mx"
      by (subst patch_children.simps) (simp add: imx nn no CText loose_eq_refl)
    from Suc.hyps(1) [OF k Suc.prems(1) le]
    obtain ks' lg where
      "patch_children (Some (DElem t as ls ks)) (cs @ nx) (cs @ ox) (Suc i) mx
         = (case patch_children (Some (DElem t as ls ks')) (cs @ nx) (cs @ ox) (length cs) mx of
              Inl er \<Rightarrow> Inl er | Inr (e'', lg') \<Rightarrow> Inr (e'', lg @ lg'))"
      "length ks' = length ks" "drop (length cs) ks' = drop (length cs) ks"
      "shaped_children cs ks'" "structural_calls lg = []"
      "list_all nan_free_child cs \<longrightarrow> ks' = ks \<and> lg = []"
      by blast
    with step show ?thesis by metis
  next
    case (CNode v)
    with ok i have "same_ok v" by (metis nth_mem same_ok_child.simps(2))
    with iks sh CNode obtain d' lg1 where
      p: "patch (Some (DElem t as ls ks)) (Some v) (Some v) i = Inr (DElem t as ls (ks[i := d']), lg1)"
      and sh': "shaped v d'" and st1: "structural_calls lg1 = []"
      and nf1: "nan_free v \<longrightarrow> d' = ks ! i \<and> lg1 = []"
      unfolding same_ok_def by (metis shaped_child.simps(2))
    have step: "patch_children (Some (DElem t as ls ks)) (cs @ nx) (cs @ ox) i mx
        = (case patch_children (Some (DElem t as ls (ks[i := d']))) (cs @ nx) (cs @ ox) (Suc i) mx of
             Inl er \<Rightarrow> Inl er | Inr (e'', lg') \<Rightarrow> Inr (e'', lg1 @ lg'))"
      by (subst patch_children.simps) (simp add: imx nn no CNode p)
    have shu: "shaped_children cs (ks[i := d'])"
      using shaped_children_update [OF Suc.prems(1) i] sh' CNode by simp
    from Suc.hyps(1) [OF k shu le]
    obtain ks' lg2 where r:
      "patch_children (Some (DElem t as ls (ks[i := d']))) (cs @ nx) (cs @ ox) (Suc i) mx
         = (case patch_children (Some (DElem t as ls ks')) (cs @ nx) (cs @ ox) (length cs) mx of
              Inl er \<Rightarrow> Inl er | Inr (e'', lg') \<Rightarrow> Inr (e'', lg2 @ lg'))"
      "length ks' = length (ks[i := d'])" "drop (length cs) ks' = drop (length cs) (ks[i := d'])"
      "shaped_children cs ks'" "structural_calls lg2 = []"
      "list_all nan_free_child cs \<longrightarrow> ks' = ks[i := d'] \<and> lg2 = []"
      by blast
    have nfv: "nan_free v" if "list_all nan_free_child cs"
      using that i CNode by (metis list_all_length nan_free_child.simps(2))
    have "patch_children (Some (DElem t as ls ks)) (cs @ nx) (cs @ ox) i mx
        = (case patch_children (Some (DElem t as ls ks')) (cs @ nx) (cs @ ox) (length cs) mx of
             Inl er \<Rightarrow> Inl er | Inr (e'', lg') \<Rightarrow> Inr (e'', (lg1 @ lg2) @ lg'))"
      unfolding step r(1) by (rule prepend_log_assoc)
    moreover have "length ks' = length ks" using r(2) by simp
    moreover have "drop (length cs) ks' = drop (length cs) ks" using r(3) i by simp
    moreover have "structural_calls (lg1 @ lg2) = []" using st1 r(5) by simp
    moreover have "list_all nan_free_child cs \<longrightarrow> ks' = ks \<and> lg1 @ lg2 = []"
      using nfv nf1 r(6) by auto
    ultimately show ?thesis using r(4) by blast
  qed
qed

lemma shaped_element: "shaped v d \<Longrightarrow> \<exists>t as ls ks. d = DElem t as ls ks"
  by (cases v; cases d) auto

lemma same_ok_step:
  assumes ok: "\<forall>c \<in> set cs. same_ok_child c"
  shows "same_ok (VNode ty ps cs)"
  unfolding same_ok_def
proof (intro allI impI)
  fix t as ls ks idx
  assume idx: "idx < length ks" and sh: "shaped (VNode ty ps cs) (ks ! idx)"
  let ?v = "VNode ty ps cs"
  from shaped_element [OF sh] obtain t' as' ls' ks' where d: "ks ! idx = DElem t' as' ls' ks'"
    by blast
  with sh have shc: "shaped_children cs ks'" and pk: "props_ok ps" by simp_all
  from updateProps_same_element [OF pk, of t' as' ls' ks']
  obtain as'' ls'' ops where
    up: "updateProps (Some (DElem t' as' ls' ks')) ps ps = Inr (Some (DElem t' as'' ls'' ks'), ops)"
    and ns: "\<forall>op \<in> set ops. \<not> structural op"
    by blast
  from prefix_loop [OF ok order_refl shc, of 0 t' as'' ls'' "[]" "[]"]
  obtain ks'' lg where
    lp: "patch_children (Some (DElem t' as'' ls'' ks')) cs cs 0 (length cs)
           = Inr (Some (DElem t' as'' ls'' ks''), lg)"
    and shc': "shaped_children cs ks''" and st: "structural_calls lg = []"
    and nf: "list_all nan_free_child cs \<longrightarrow> ks'' = ks' \<and> lg = []"
    by (auto simp: loop_done)
  have p: "patch (Some (DElem t as ls ks)) (Some ?v) (Some ?v) idx
       = Inr (DElem t as ls (ks[idx := DElem t' as'' ls'' ks'']), at_child idx (here ops @ lg))"
    by (subst patch.simps) (simp add: nth_opt_def idx d up lp)
  have "nan_free ?v \<longrightarrow> DElem t' as'' ls'' ks'' = ks ! idx \<and> at_child idx (here ops @ lg) = []"
  proof
    assume n: "nan_free ?v"
    then have "updateProps (Some (DElem t' as' ls' ks')) ps ps = Inr (Some (DElem t' as' ls' ks'), [])"
      by (simp add: updateProps_same_nan_free)
    with up have "as'' = as'" "ls'' = ls'" "ops = []" by simp_all
    with n nf d show "DElem t' as'' ls'' ks'' = ks ! idx \<and> at_child idx (here ops @ lg) = []"
      by simp
  qed
  moreover have "structural_calls (at_child idx (here ops @ lg)) = []"
    using st structural_calls_here [OF ns] by simp
  moreover have "shaped ?v (DElem t' as'' ls'' ks'')"
    using shc' pk by simp
  ultimately show "\<exists>d' lg. patch (Some (DElem t as ls ks)) (Some ?v) (Some ?v) idx
                    = Inr (DElem t as ls (ks[idx := d']), lg)
           \<and> shaped ?v d' \<and> structural_calls lg = []
           \<and> (nan_free ?v \<longrightarrow> d' = ks ! idx \<and> lg = [])"
    using p by blast
qed

lemma same_ok_all: "same_ok v" and same_ok_child_all: "same_ok_child c"
proof (induction v and c)
  case (VNode ty ps cs)
  then show ?case by (intro same_ok_step) simp
next
  case (CText s)
  show ?case by simp
next
  case (CNode v)
  then show ?case by simp
qed

lemma render_prop_element:
  "render_prop (DElem t as ls ks) (key, v) = Inr d \<Longrightarrow>
   (\<exists>as' ls'. d = DElem t as' ls' ks) \<and> ((starts_with_on key \<and> is_function v) \<or> valid_name key)"
  by (auto simp: listen_def split: if_splits)

lemma render_props_element:
  "render_props (DElem t as ls ks) entries = Inr d \<Longrightarrow>
   (\<exists>as' ls'. d = DElem t as' ls' ks) \<and> attribute_names entries"
proof (induction entries arbitrary: as ls)
  case Nil
  then show ?case by (auto simp: attribute_names_def)
next
  case (Cons entry entries)
  obtain key v where e: "entry = (key, v)" by (cases entry)
  from Cons.prems e obtain el' where
    p: "render_prop (DElem t as ls ks) (key, v) = Inr el'" and r: "render_props el' entries = Inr d"
    by (auto split: sum.splits)
  from render_prop_element [OF p] obtain as1 ls1 where
    el': "el' = DElem t as1 ls1 ks" and k: "(starts_with_on key \<and> is_function v) \<or> valid_name key"
    by blast
  from Cons.IH [of as1 ls1] r el' have "(\<exists>as' ls'. d = DElem t as' ls' ks) \<and> attribute_names entries"
    by simp
  with k e show ?case by (auto simp: attribute_names_def)
qed

lemma render_children_element:
  "render_children (DElem t as ls ks0) cs = Inr d \<Longrightarrow>
   \<exists>ks. d = DElem t as ls (ks0 @ ks) \<and> list_all2 (\<lambda>c k. render_child c = Inr k) cs ks"
proof (induction cs arbitrary: ks0)
  case Nil
  then show ?case by simp
next
  case (Cons c cs)
  show ?case
  proof (cases c)
    case (CText s)
    with Cons.prems have "render_children (DElem t as ls (ks0 @ [DText s []])) cs = Inr d"
      by simp
    from Cons.IH [OF this] obtain ks where
      "d = DElem t as ls ((ks0 @ [DText s []]) @ ks)" "list_all2 (\<lambda>c k. render_child c = Inr k) cs ks"
      by blast
    with CText show ?thesis
      by (intro exI [of _ "DText s [] # ks"]) simp
  next
    case (CNode v)
    with Cons.prems obtain k where
      k: "render v = Inr k" and r: "render_children (DElem t as ls (ks0 @ [k])) cs = Inr d"
      by (auto split: sum.splits)
    from Cons.IH [OF r] obtain ks where
      "d = DElem t as ls ((ks0 @ [k]) @ ks)" "list_all2 (\<lambda>c k. render_child c = Inr k) cs ks"
      by blast
    with CNode k show ?thesis
      by (intro exI [of _ "k # ks"]) simp
  qed
qed

lemma render_element:
  assumes "render (VNode ty ps cs) = Inr d"
  shows "\<exists>as ls ks. d = DElem (map ascii_lower ty) as ls ks
      \<and> list_all2 (\<lambda>c k. render_child c = Inr k) cs ks \<and> props_ok ps"
proof -
  from assms obtain el' where
    p: "(case ps of None \<Rightarrow> Inr (DElem (map ascii_lower ty) [] [] [])
         | Some entries \<Rightarrow> render_props (DElem (map ascii_lower ty) [] [] []) entries) = Inr el'"
    and c: "render_children el' cs = Inr d"
    by (auto simp: createElement_def split: if_splits sum.splits)
  from p obtain as ls where el': "el' = DElem (map ascii_lower ty) as ls []" and pk: "props_ok ps"
    by (cases ps) (auto dest: render_props_element)
  from render_children_element [of "map ascii_lower ty" as ls "[]" cs d] c el' pk
  show ?thesis by auto
qed

lemma shaped_children_rendered:
  "list_all2 (\<lambda>c k. render_child c = Inr k) cs ks \<Longrightarrow>
   \<forall>c \<in> set cs. \<forall>d. render_child c = Inr d \<longrightarrow> shaped_child c d \<Longrightarrow>
   shaped_children cs (ks @ extra)"
  by (induction rule: list_all2_induct) auto

lemma shaped_render: "render v = Inr d \<Longrightarrow> shaped v d"
  and shaped_render_child: "render_child c = Inr d \<Longrightarrow> shaped_child c d"
proof (induction v and c arbitrary: d and d)
  case (VNode ty ps cs)
  from render_element [OF VNode.prems] obtain as ls ks where
    d: "d = DElem (map ascii_lower ty) as ls ks"
    and r: "list_all2 (\<lambda>c k. render_child c = Inr k) cs ks" and pk: "props_ok ps"
    by blast
  from shaped_children_rendered [OF r, of "[]"] VNode.IH have "shaped_children cs ks"
    by simp
  with d pk show ?case by simp
next
  case (CText s)
  show ?case by simp
next
  case (CNode v)
  then show ?case by simp
qed


text \<open>
  C4, as amended.  For every virtual tree \<open>V\<close> none of whose attribute values is \<open>NaN\<close>,
  and every parent whose child at the position was rendered from \<open>V\<close>,
  \<open>patch(parent, V, V, index)\<close> makes no host call and leaves the live tree as it is.
\<close>

theorem patch_same_tree_no_mutation:
  assumes "nan_free v" and "index < length (childNodes p)" and "render v = Inr (childNodes p ! index)"
  shows "patch (Some p) (Some v) (Some v) index = Inr (p, [])"
proof -
  from assms(2) obtain t as ls ks where p: "p = DElem t as ls ks"
    by (cases p) auto
  have "shaped v (ks ! index)"
    using assms(3) p shaped_render [of v] by simp
  with same_ok_all [of v] assms(1,2) p show ?thesis
    unfolding same_ok_def by (metis childNodes.simps(2) list_update_id)
qed

theorem patch_same_tree_no_mutation_witness:
  "nan_free list_node \<and> render list_node = Inr list_live \<and>
   patch (Some (DElem ''body'' [] [] [list_live])) (Some list_node) (Some list_node) 0
     = Inr (DElem ''body'' [] [] [list_live], [])"
proof -
  have n: "nan_free list_node"
    by (simp add: list_node_def)
  have r: "render list_node = Inr list_live"
    by code_simp
  from patch_same_tree_no_mutation [of list_node 0 "DElem ''body'' [] [] [list_live]"] n r
  show ?thesis by simp
qed

text \<open>
  The claim as stated fails: with \<open>V = <div a=NaN>\<close> and the live tree rendered from
  \<open>V\<close>, \<open>patch(root, V, V)\<close> calls \<open>setAttribute('a', NaN)\<close>, since \<open>NaN != NaN\<close>.
\<close>

theorem patch_same_tree_counterexample:
  "render nan_node = Inr nan_live \<and>
   patch (Some (DElem ''body'' [] [] [nan_live])) (Some nan_node) (Some nan_node) 0
     = Inr (DElem ''body'' [] [] [nan_live], [([0], SetAttribute ''a'' JNaN)])"
  by code_simp

lemma at_child_Cons [simp]: "at_child i ((path, op) # lg) = (i # path, op) # at_child i lg"
  by (simp add: at_child_def)

lemma structural_calls_Cons [simp]:
  "structural_calls ((path, op) # lg) = (if structural op then [(path, op)] else []) @ structural_calls lg"
  by (simp add: structural_calls_def)








lemma minimal_ops_loose:
  assumes "\<forall>key \<in> fst ` set nw. loose_eq (prop_get nw key) (prop_get od key)"
    and "\<forall>key \<in> fst ` set od. prop_in key nw"
  shows "minimal_ops nw od = []"
  using assms by (simp add: minimal_ops_def set_ops_def remove_ops_def)

lemma put_child_same: "put_child index (nth_opt (childNodes p) index) p = p"
  by (cases p) (simp_all add: nth_opt_def)

lemma loop_all_equal:
  "\<forall>j. i \<le> j \<and> j < mx \<longrightarrow>
        (is_text (nth_opt ncs j) \<or> is_text (nth_opt ocs j)) \<and>
        loose_eq (child_val (nth_opt ncs j)) (child_val (nth_opt ocs j)) \<Longrightarrow>
   patch_children el ncs ocs i mx = Inr (el, [])"
proof (induction "mx - i" arbitrary: i)
  case 0
  then show ?case by (simp add: loop_done)
next
  case (Suc k)
  then have "i < mx" by simp
  moreover from Suc have "patch_children el ncs ocs (Suc i) mx = Inr (el, [])" by simp
  ultimately show ?case
    using Suc.prems by (subst patch_children.simps) auto
qed

text \<open>
  C10.  Both comparisons are \<open>!=\<close>.  In \<open>updateProps\<close>, a key whose new and old values are
  loosely equal causes no call and no change, and when that holds of every key and the new
  mapping has every key of the old one, the whole call does nothing.  In the loop of
  \<open>patch\<close>, a position where one side is a string and the two sides are loosely equal is
  passed over; when that holds of every position and the attributes are loosely equal key by
  key, the whole \<open>patch\<close> makes no host call and leaves the live tree as it is, whatever
  that tree.  The number \<open>1\<close> and the string \<open>"1"\<close> are such a pair of values, and so are
  \<open>16\<close> and \<open>"0x10"\<close>, \<open>10\<close> and \<open>"1e1"\<close>, \<open>1\<close> and \<open>" 1.0 "\<close>, \<open>true\<close> and \<open>"1"\<close>, a
  plain object and \<open>"[object Object]"\<close>.
\<close>

theorem loose_equality_suppresses_mutation:
  "(loose_eq (prop_get nw key) (prop_get od key) \<longrightarrow> set_prop nw od key st = Inr st) \<and>
   ((\<forall>key \<in> fst ` set nw. loose_eq (prop_get nw key) (prop_get od key)) \<longrightarrow>
    (\<forall>key \<in> fst ` set od. prop_in key nw) \<longrightarrow>
      updateProps el (Some nw) (Some od) = Inr (el, [])) \<and>
   (i < mx \<longrightarrow> is_text (nth_opt ncs i) \<or> is_text (nth_opt ocs i) \<longrightarrow>
    loose_eq (child_val (nth_opt ncs i)) (child_val (nth_opt ocs i)) \<longrightarrow>
      patch_children el ncs ocs i mx = patch_children el ncs ocs (Suc i) mx) \<and>
   ((\<forall>key \<in> fst ` set nw. loose_eq (prop_get nw key) (prop_get od key)) \<longrightarrow>
    (\<forall>key \<in> fst ` set od. prop_in key nw) \<longrightarrow>
    (\<forall>j < max (length ncs) (length ocs).
        (is_text (nth_opt ncs j) \<or> is_text (nth_opt ocs j)) \<and>
        loose_eq (child_val (nth_opt ncs j)) (child_val (nth_opt ocs j))) \<longrightarrow>
      patch (Some p) (Some (VNode ty (Some nw) ncs)) (Some (VNode ty (Some od) ocs)) index = Inr (p, []))"
proof -
  have a: "set_prop nw od key st = Inr st" if "loose_eq (prop_get nw key) (prop_get od key)"
    using that by (simp add: set_prop_def)
  have b: "updateProps el' (Some nw) (Some od) = Inr (el', [])"
    if "\<forall>key \<in> fst ` set nw. loose_eq (prop_get nw key) (prop_get od key)"
      and "\<forall>key \<in> fst ` set od. prop_in key nw" for el'
    using minimal_ops_loose [OF that] by (simp add: updateProps_invoke_all)
  have c: "patch_children el ncs ocs i mx = patch_children el ncs ocs (Suc i) mx"
    if "i < mx" "is_text (nth_opt ncs i) \<or> is_text (nth_opt ocs i)"
      "loose_eq (child_val (nth_opt ncs i)) (child_val (nth_opt ocs i))"
    using that by (subst patch_children.simps) auto
  have d: "patch (Some p) (Some (VNode ty (Some nw) ncs)) (Some (VNode ty (Some od) ocs)) index = Inr (p, [])"
    if "\<forall>key \<in> fst ` set nw. loose_eq (prop_get nw key) (prop_get od key)"
      and "\<forall>key \<in> fst ` set od. prop_in key nw"
      and "\<forall>j < max (length ncs) (length ocs).
        (is_text (nth_opt ncs j) \<or> is_text (nth_opt ocs j)) \<and>
        loose_eq (child_val (nth_opt ncs j)) (child_val (nth_opt ocs j))"
  proof -
    have "patch_children (nth_opt (childNodes p) index) ncs ocs 0 (max (length ncs) (length ocs))
        = Inr (nth_opt (childNodes p) index, [])"
      using that(3) by (intro loop_all_equal) simp
    then show ?thesis
      by (subst patch.simps) (simp add: b [OF that(1,2)] put_child_same)
  qed
  from a b c d show ?thesis by blast
qed

theorem loose_equality_suppresses_mutation_witness:
  "loose_eq (JNum 1) (JStr ''1'') \<and> JNum 1 \<noteq> JStr ''1'' \<and>
   loose_eq (JNum 16) (JStr ''0x10'') \<and> loose_eq (JNum 10) (JStr ''1e1'') \<and>
   loose_eq (JNum 1) (JStr '' 1.0 '') \<and> loose_eq (JBool True) (JStr ''1'') \<and>
   loose_eq (child_val (Some (CNode (VNode ''b'' None [])))) (child_val (Some (CText ''[object Object]''))) \<and>
   render quirk_old = Inr quirk_live \<and>
   updateProps (Some quirk_live) (props quirk_new) (props quirk_old) = Inr (Some quirk_live, []) \<and>
   patch (Some (DElem ''body'' [] [] [quirk_live])) (Some quirk_new) (Some quirk_old) 0
     = Inr (DElem ''body'' [] [] [quirk_live], [])"
proof -
  have l1: "loose_eq (JNum 1) (JStr ''1'')" and l3: "loose_eq (JNum 16) (JStr ''0x10'')"
    and l4: "loose_eq (JNum 10) (JStr ''1e1'')" and l5: "loose_eq (JNum 1) (JStr '' 1.0 '')"
    and l6: "loose_eq (JBool True) (JStr ''1'')"
    by code_simp+
  have l2: "loose_eq (child_val (Some (CNode (VNode ''b'' None [])))) (child_val (Some (CText ''[object Object]'')))"
    by code_simp
  have r: "render quirk_old = Inr quirk_live"
    by code_simp
  have p1: "\<forall>key \<in> fst ` set [(''a'', JNum 16)]. loose_eq (prop_get [(''a'', JNum 16)] key) (prop_get [(''a'', JStr ''0x10'')] key)"
    using l3 by (simp add: prop_get_def)
  have p2: "\<forall>key \<in> fst ` set [(''a'', JStr ''0x10'')]. prop_in key [(''a'', JNum 16)]"
    by (simp add: prop_in_def)
  have p3: "\<forall>j < max (length [CNode (VNode ''b'' None [])]) (length [CText ''[object Object]'']).
        (is_text (nth_opt [CNode (VNode ''b'' None [])] j) \<or> is_text (nth_opt [CText ''[object Object]''] j)) \<and>
        loose_eq (child_val (nth_opt [CNode (VNode ''b'' None [])] j)) (child_val (nth_opt [CText ''[object Object]''] j))"
    using l2 by (simp add: nth_opt_def)
  note inst = loose_equality_suppresses_mutation
    [where nw = "[(''a'', JNum 16)]" and od = "[(''a'', JStr ''0x10'')]"
       and ncs = "[CNode (VNode ''b'' None [])]" and ocs = "[CText ''[object Object]'']"
       and ty = "''p''" and index = 0 and p = "DElem ''body'' [] [] [quirk_live]"
       and el = "Some quirk_live"]
  from inst p1 p2 have u: "updateProps (Some quirk_live) (Some [(''a'', JNum 16)]) (Some [(''a'', JStr ''0x10'')])
      = Inr (Some quirk_live, [])" by blast
  from inst p1 p2 p3 have q: "patch (Some (DElem ''body'' [] [] [quirk_live]))
      (Some (VNode ''p'' (Some [(''a'', JNum 16)]) [CNode (VNode ''b'' None [])]))
      (Some (VNode ''p'' (Some [(''a'', JStr ''0x10'')]) [CText ''[object Object]''])) 0
     = Inr (DElem ''body'' [] [] [quirk_live], [])" by blast
  from l1 l2 l3 l4 l5 l6 r u q show ?thesis
    by (simp add: quirk_new_def quirk_old_def)
qed

section \<open>Properties of \<open>mount\<close>\<close>

lemma getElementById_None:
  "(getElementById d c = None) = (c \<notin> set (ids d))"
  "(getElementById_list ks i c = None) = (\<forall>k \<in> set ks. c \<notin> set (ids k))"
  by (induction d c and ks i c rule: getElementById_getElementById_list.induct)
     (auto split: option.splits)

lemma getElementById_Some:
  "getElementById d c = Some path \<Longrightarrow>
     \<exists>t as ls ks. node_at d path = Some (DElem t as ls ks) \<and> map_of as ''id'' = Some c"
  "getElementById_list ks i c = Some path \<Longrightarrow>
     \<exists>j rest t as ls ks'. path = j # rest \<and> i \<le> j \<and> j - i < length ks
        \<and> node_at (ks ! (j - i)) rest = Some (DElem t as ls ks') \<and> map_of as ''id'' = Some c"
proof (induction d c and ks i c arbitrary: path and path rule: getElementById_getElementById_list.induct)
  case (1 s ls c)
  then show ?case by simp
next
  case (2 t as ls ks c)
  show ?case
  proof (cases "c \<noteq> [] \<and> map_of as ''id'' = Some c")
    case True
    with 2 show ?thesis by auto
  next
    case False
    with 2 have "getElementById_list ks 0 c = Some path" by auto
    from "2.IH" [OF False this] show ?thesis by auto
  qed
next
  case (3 i c)
  then show ?case by simp
next
  case (4 k ks i c)
  show ?case
  proof (cases "getElementById k c")
    case None
    with 4 have "getElementById_list ks (Suc i) c = Some path" by simp
    from "4.IH"(2) [OF None this] obtain j rest t as ls ks' where
      "path = j # rest" "Suc i \<le> j" "j - Suc i < length ks"
      "node_at (ks ! (j - Suc i)) rest = Some (DElem t as ls ks')" "map_of as ''id'' = Some c"
      by blast
    then show ?thesis
      by (intro exI [of _ j] exI [of _ rest] exI [of _ t] exI [of _ as] exI [of _ ls] exI [of _ ks'])
         (auto simp: nth_Cons' Suc_diff_le)
  next
    case (Some p)
    with 4 have path: "path = i # p" by simp
    from "4.IH"(1) [OF Some] obtain t as ls ks' where
      "node_at k p = Some (DElem t as ls ks')" "map_of as ''id'' = Some c" by blast
    with path show ?thesis by auto
  qed
qed

lemma node_at_update_at:
  "node_at d path = Some n \<Longrightarrow> node_at (update_at path f d) path = Some (f n)"
proof (induction path arbitrary: d)
  case Nil
  then show ?case by simp
next
  case (Cons i path)
  then show ?case by (cases d) (auto split: if_splits)
qed

lemma perform_not_Error: "perform op d \<noteq> Inl (Error m)"
  by (cases op; cases d) (auto simp: listen_def split: sum.splits)

lemma invoke_not_Error: "invoke op st \<noteq> Inl (Error m)"
  using perform_not_Error by (auto simp: invoke_def split: option.splits sum.splits)

lemma invoke_all_not_Error: "invoke_all ops st \<noteq> Inl (Error m)"
  using invoke_not_Error by (induction ops arbitrary: st) (auto split: sum.splits)

lemma updateProps_not_Error: "updateProps el nw od \<noteq> Inl (Error m)"
  by (simp add: updateProps_invoke_all invoke_all_not_Error)

lemma on_parent_not_Error: "on_parent op p \<noteq> Inl (Error m)"
  using perform_not_Error by (auto simp: on_parent_def split: sum.splits)

lemma render_prop_error:
  "render_prop (DElem t as ls ks) (key, v) = Inl e \<Longrightarrow> e = InvalidCharacterError"
  by (auto simp: listen_def is_function_object split: if_splits)

lemma render_props_error:
  "render_props (DElem t as ls ks) entries = Inl e \<Longrightarrow> e = InvalidCharacterError"
proof (induction entries arbitrary: as ls)
  case Nil
  then show ?case by simp
next
  case (Cons entry entries)
  obtain key v where en: "entry = (key, v)" by (cases entry)
  show ?case
  proof (cases "render_prop (DElem t as ls ks) (key, v)")
    case (Inl e')
    with Cons.prems en have "e = e'" by simp
    with render_prop_error [OF Inl] show ?thesis by simp
  next
    case (Inr el')
    from render_prop_element [OF Inr] obtain as1 ls1 where "el' = DElem t as1 ls1 ks" by blast
    with Cons.prems en Inr have "render_props (DElem t as1 ls1 ks) entries = Inl e" by simp
    then show ?thesis by (rule Cons.IH)
  qed
qed

lemma render_children_error:
  "\<forall>c \<in> set cs. \<forall>e. render_child c = Inl e \<longrightarrow> e = InvalidCharacterError \<Longrightarrow>
   render_children (DElem t as ls ks) cs = Inl e \<Longrightarrow> e = InvalidCharacterError"
proof (induction cs arbitrary: ks)
  case Nil
  then show ?case by simp
next
  case (Cons c cs)
  show ?case
  proof (cases c)
    case (CText s)
    with Cons.prems(2) have "render_children (DElem t as ls (ks @ [DText s []])) cs = Inl e" by simp
    with Cons.IH Cons.prems(1) show ?thesis by simp
  next
    case (CNode v)
    show ?thesis
    proof (cases "render v")
      case (Inl e')
      with Cons.prems CNode show ?thesis by simp
    next
      case (Inr k)
      with Cons.prems(2) CNode have "render_children (DElem t as ls (ks @ [k])) cs = Inl e" by simp
      with Cons.IH Cons.prems(1) show ?thesis by simp
    qed
  qed
qed

lemma render_error: "render v = Inl e \<Longrightarrow> e = InvalidCharacterError"
  and render_child_error: "render_child c = Inl e \<Longrightarrow> e = InvalidCharacterError"
proof (induction v and c arbitrary: e and e)
  case (VNode ty ps cs)
  show ?case
  proof (cases "valid_name ty")
    case False
    with VNode.prems show ?thesis by (simp add: createElement_def)
  next
    case True
    let ?el = "DElem (map ascii_lower ty) [] [] []"
    show ?thesis
    proof (cases "case ps of None \<Rightarrow> Inr ?el | Some entries \<Rightarrow> render_props ?el entries")
      case (Inl e')
      with VNode.prems True have "e = e'" by (simp add: createElement_def)
      moreover from Inl have "e' = InvalidCharacterError"
        by (cases ps) (auto dest: render_props_error)
      ultimately show ?thesis by simp
    next
      case (Inr el')
      then obtain as ls where "el' = DElem (map ascii_lower ty) as ls []"
        by (cases ps) (auto dest: render_props_element)
      with VNode.prems True Inr have "render_children (DElem (map ascii_lower ty) as ls []) cs = Inl e"
        by (simp add: createElement_def)
      with VNode.IH show ?thesis by (intro render_children_error [of cs]) auto
    qed
  qed
next
  case (CText s)
  then show ?case by simp
next
  case (CNode v)
  then show ?case by simp
qed

lemma render_not_Error: "render v \<noteq> Inl (Error m)"
  using render_error by fastforce

lemma fresh_child_not_Error: "fresh_child c \<noteq> Inl (Error m)"
  by (cases c rule: fresh_child.cases) (auto simp: render_not_Error)

lemma patch_not_Error:
  "patch parent newNode oldNode index \<noteq> Inl (Error m)"
  "patch_children currentEl newChildren oldChildren i mx \<noteq> Inl (Error m)"
proof (induction parent newNode oldNode index and currentEl newChildren oldChildren i mx
       rule: patch_patch_children.induct)
  case (1 parent newNode oldNode index)
  then show ?case
    using updateProps_not_Error on_parent_not_Error render_not_Error
    by (subst patch.simps) (auto split: option.splits sum.splits prod.splits simp: Let_def)
next
  case (2 currentEl newChildren oldChildren i mx)
  then show ?case
    using on_parent_not_Error fresh_child_not_Error
    by (subst patch_children.simps) (auto split: option.splits sum.splits prod.splits)
qed

text \<open>
  The host stores tag and attribute names in lower case, so an element rendered with the
  key \<open>ID\<close> is found by its identifier.
\<close>

lemma render_lowercase_example:
  "render (VNode ''DIV'' (Some [(''ID'', JStr ''app''), (''onClick'', JFun 1 ''f'')]) [])
     = Inr (DElem ''div'' [(''id'', ''app'')] [(''click'', JFun 1 ''f'')] []) \<and>
   getElementById (DElem ''div'' [(''id'', ''app'')] [(''click'', JFun 1 ''f'')] []) ''app'' = Some []"
  by code_simp

text \<open>
  C7, as amended.  \<open>mount(vnode, containerId)\<close> throws the error with the message
  \<open>cannot find ID: \<close> followed by the identifier exactly when no element of the document
  has that identifier.  Otherwise it renders the vnode: when the host accepts the tag and
  attribute names, the rendered node is appended as the last child of an element with that
  identifier; when it rejects one, its \<open>InvalidCharacterError\<close> reaches the caller.  The
  error of \<open>mount\<close> is the only one the library constructs: what \<open>render\<close>, \<open>patch\<close> and
  \<open>updateProps\<close> throw comes from the host.
\<close>

theorem mount_not_found:
  "(c \<notin> set (ids doc) \<longrightarrow> mount vnode c doc = Inl (Error (''cannot find ID: '' @ c))) \<and>
   (c \<in> set (ids doc) \<longrightarrow> render vnode = Inr node \<longrightarrow>
      (\<exists>path t as ls ks doc'.
          mount vnode c doc = Inr doc' \<and>
          node_at doc path = Some (DElem t as ls ks) \<and> map_of as ''id'' = Some c \<and>
          node_at doc' path = Some (DElem t as ls (ks @ [node])))) \<and>
   (c \<in> set (ids doc) \<longrightarrow> render vnode = Inl e \<longrightarrow>
      mount vnode c doc = Inl e \<and> e = InvalidCharacterError) \<and>
   (mount vnode c doc = Inl (Error msg) \<longrightarrow> c \<notin> set (ids doc) \<and> msg = ''cannot find ID: '' @ c) \<and>
   render vnode \<noteq> Inl (Error msg) \<and>
   patch parent newNode oldNode index \<noteq> Inl (Error msg) \<and>
   updateProps el newProps oldProps \<noteq> Inl (Error msg)"
proof -
  have a: "mount vnode c doc = Inl (Error (''cannot find ID: '' @ c))" if "c \<notin> set (ids doc)"
    using that getElementById_None(1) [of doc c] by (simp add: mount_def)
  have b: "\<exists>path t as ls ks doc'.
          mount vnode c doc = Inr doc' \<and>
          node_at doc path = Some (DElem t as ls ks) \<and> map_of as ''id'' = Some c \<and>
          node_at doc' path = Some (DElem t as ls (ks @ [node]))"
    if "c \<in> set (ids doc)" and r: "render vnode = Inr node"
  proof -
    from that(1) obtain path where g: "getElementById doc c = Some path"
      using getElementById_None(1) [of doc c] by auto
    from getElementById_Some(1) [OF g] obtain t as ls ks where
      n: "node_at doc path = Some (DElem t as ls ks)" and i: "map_of as ''id'' = Some c" by blast
    have m: "mount vnode c doc = Inr (update_at path (\<lambda>el. append_child el node) doc)"
      using g r by (simp add: mount_def)
    have "node_at (update_at path (\<lambda>el. append_child el node) doc) path
        = Some (DElem t as ls (ks @ [node]))"
      using node_at_update_at [OF n, of "\<lambda>el. append_child el node"] by simp
    with m n i show ?thesis by blast
  qed
  have c: "mount vnode c doc = Inl e \<and> e = InvalidCharacterError"
    if "c \<in> set (ids doc)" and r: "render vnode = Inl e"
  proof -
    from that(1) obtain path where "getElementById doc c = Some path"
      using getElementById_None(1) [of doc c] by auto
    with r render_error [OF r] show ?thesis by (simp add: mount_def)
  qed
  have d: "c \<notin> set (ids doc) \<and> msg = ''cannot find ID: '' @ c" if "mount vnode c doc = Inl (Error msg)"
  proof (cases "c \<in> set (ids doc)")
    case True
    then obtain path where "getElementById doc c = Some path"
      using getElementById_None(1) [of doc c] by auto
    with that render_not_Error [of vnode msg] show ?thesis
      by (auto simp: mount_def split: sum.splits)
  next
    case False
    with a that show ?thesis by simp
  qed
  from a b c d render_not_Error patch_not_Error(1) updateProps_not_Error show ?thesis
    by (intro conjI impI) blast+
qed

theorem mount_not_found_witness:
  "''roo'' \<notin> set (ids page) \<and> ''root'' \<in> set (ids page) \<and>
   render item_x = Inr live_x \<and>
   render (VNode ''p'' (Some [(''a b'', JNum 1)]) []) = Inl InvalidCharacterError \<and>
   mount item_x ''roo'' page = Inl (Error ''cannot find ID: roo'') \<and>
   mount item_x ''root'' page
     = Inr (DElem ''html'' [] []
          [DElem ''body'' [] [] [DText ''hello'' [], DElem ''div'' [(''id'', ''root'')] [] [live_x]]]) \<and>
   (\<exists>path t as ls ks doc'.
       mount item_x ''root'' page = Inr doc' \<and>
       node_at page path = Some (DElem t as ls ks) \<and> map_of as ''id'' = Some ''root'' \<and>
       node_at doc' path = Some (DElem t as ls (ks @ [live_x]))) \<and>
   mount (VNode ''p'' (Some [(''a b'', JNum 1)]) []) ''root'' page = Inl InvalidCharacterError"
proof -
  have a: "''roo'' \<notin> set (ids page)" and b: "''root'' \<in> set (ids page)"
    by (simp_all add: page_def)
  have r: "render item_x = Inr live_x"
    and rb: "render (VNode ''p'' (Some [(''a b'', JNum 1)]) []) = Inl InvalidCharacterError"
    by code_simp+
  have c: "mount item_x ''root'' page
     = Inr (DElem ''html'' [] []
          [DElem ''body'' [] [] [DText ''hello'' [], DElem ''div'' [(''id'', ''root'')] [] [live_x]]])"
    by code_simp
  have d: "mount item_x ''roo'' page = Inl (Error (''cannot find ID: '' @ ''roo''))"
    by (rule mount_not_found [where c = "''roo''" and doc = page and vnode = item_x,
          THEN conjunct1, rule_format, OF a])
  then have d: "mount item_x ''roo'' page = Inl (Error ''cannot find ID: roo'')"
    by simp
  have e: "\<exists>path t as ls ks doc'.
       mount item_x ''root'' page = Inr doc' \<and>
       node_at page path = Some (DElem t as ls ks) \<and> map_of as ''id'' = Some ''root'' \<and>
       node_at doc' path = Some (DElem t as ls (ks @ [live_x]))"
    by (rule mount_not_found [where c = "''root''" and doc = page and vnode = item_x and node = live_x,
          THEN conjunct2, THEN conjunct1, rule_format, OF b r])
  have f: "mount (VNode ''p'' (Some [(''a b'', JNum 1)]) []) ''root'' page = Inl InvalidCharacterError"
    by (rule mount_not_found [where c = "''root''" and doc = page
          and vnode = "VNode ''p'' (Some [(''a b'', JNum 1)]) []" and e = InvalidCharacterError,
          THEN conjunct2, THEN conjunct2, THEN conjunct1, rule_format, OF b rb, THEN conjunct1])
  from a b r rb c d e f show ?thesis by (intro conjI)
qed

text \<open>
  The claim as stated fails: with an element of the identifier in the document, \<open>mount\<close> of
  a vnode with the attribute key \<open>a b\<close>, which is no name, appends nothing and throws the
  \<open>InvalidCharacterError\<close> of \<open>setAttribute\<close>, which the caller observes.
\<close>

theorem mount_invalid_name_counterexample:
  "getElementById page ''root'' = Some [0, 1] \<and>
   mount (VNode ''p'' (Some [(''a b'', JNum 1)]) []) ''root'' page = Inl InvalidCharacterError"
  by code_simp

text \<open>
  \<open>patch\<close> lets the errors of the host through as well: shrinking the three children of a
  rendered list to one removes the second child and then finds no child at position 2.
\<close>

lemma patch_shrink_by_two_example:
  "render list_xyz = Inr live_xyz \<and>
   patch (Some (DElem ''body'' [] [] [live_xyz])) (Some (VNode ''ul'' None [CNode item_x])) (Some list_xyz) 0
     = Inl TypeError"
  by code_simp

section \<open>Properties of the reactive state\<close>

lemma preserved_all:
  assumes refl: "\<And>s. R s s"
    and trans: "\<And>a b c. R a b \<Longrightarrow> R b c \<Longrightarrow> R a c"
    and r_track: "\<And>t k s. R s (track t k s)"
    and r_id: "\<And>s. R s (s\<lparr>next_id := Suc (next_id s)\<rparr>)"
    and r_enter: "\<And>s e. R s (s\<lparr>activeEffect := Some e, calls := calls s @ [fst e]\<rparr>)"
    and r_leave: "\<And>s. R s (s\<lparr>activeEffect := None\<rparr>)"
    and r_write: "\<And>t k v s. R s (snd (reflect_set t k v s))"
  shows "preserved R n"
proof (induction n)
  case 0
  have "\<And>cs s c s'. exec 0 cs s = Some (c, s') \<Longrightarrow> R s s'"
    subgoal for cs by (cases cs) (auto simp: refl)
    done
  moreover have "\<And>cm s c s'. step 0 cm s = Some (c, s') \<Longrightarrow> R s s'"
    subgoal for cm by (cases cm) (auto simp: refl r_track reactive_get_def)
    done
  ultimately show ?case
    unfolding preserved_def by auto
next
  case (Suc n)
  then have IH:
    "\<And>cs s c s'. exec n cs s = Some (c, s') \<Longrightarrow> R s s'"
    "\<And>cm s c s'. step n cm s = Some (c, s') \<Longrightarrow> R s s'"
    "\<And>fn s c s'. effect n fn s = Some (c, s') \<Longrightarrow> R s s'"
    "\<And>e s c s'. effectFn n e s = Some (c, s') \<Longrightarrow> R s s'"
    "\<And>t k s c s'. trigger n t k s = Some (c, s') \<Longrightarrow> R s s'"
    "\<And>t k i s c s'. forEach n t k i s = Some (c, s') \<Longrightarrow> R s s'"
    "\<And>t k v s c s'. reactive_set n t k v s = Some (c, s') \<Longrightarrow> R s s'"
    unfolding preserved_def by auto
  have 1: "R s s'" if "exec (Suc n) cs s = Some (c, s')" for cs s c s'
  proof (cases cs)
    case Nil
    with that show ?thesis by (simp add: refl)
  next
    case (Cons cm rest)
    with that show ?thesis
      by (auto split: option.splits prod.splits completion.splits
               dest: IH(1) IH(2) intro: trans)
  qed
  have 2: "R s s'" if "step (Suc n) cm s = Some (c, s')" for cm s c s'
    using that
    by (cases cm)
       (auto simp: refl r_track reactive_get_def
             split: option.splits prod.splits completion.splits if_splits
             dest: IH(3) IH(5) IH(7))
  have 3: "R s s'" if "effect (Suc n) fn s = Some (c, s')" for fn s c s'
    using that r_id [of s] by (auto dest!: IH(4) intro: trans)
  have 4: "R s s'" if "effectFn (Suc n) e s = Some (c, s')" for e s c s'
  proof -
    from that show ?thesis
      by (auto split: option.splits prod.splits completion.splits
               dest!: IH(1) intro: trans [OF r_enter] trans [OF _ r_leave] trans [OF trans [OF r_enter] r_leave])
  qed
  have 5: "R s s'" if "trigger (Suc n) t k s = Some (c, s')" for t k s c s'
    using that by (auto simp: refl split: option.splits dest: IH(6))
  have 6: "R s s'" if "forEach (Suc n) t k i s = Some (c, s')" for t k i s c s'
    using that
    by (auto simp: refl split: option.splits prod.splits completion.splits if_splits
             dest: IH(4) IH(6) intro: trans)
  have 7: "R s s'" if "reactive_set (Suc n) t k v s = Some (c, s')" for t k v s c s'
  proof (cases "reflect_set t k v s")
    case (Pair result s1)
    then have "R s s1" using r_write [of s t k v] by simp
    with that Pair show ?thesis
      by (auto split: option.splits prod.splits completion.splits if_splits
               dest!: IH(5) intro: trans)
  qed
  show ?case
    unfolding preserved_def using 1 2 3 4 5 6 7 by blast
qed


lemma dep_set_track:
  "dep_set (track target key s) t k =
     (case activeEffect s of
        None \<Rightarrow> dep_set s t k
      | Some e \<Rightarrow> if t = target \<and> k = key then set_add e (dep_set s t k) else dep_set s t k)"
  by (auto simp: track_def dep_set_def Let_def split: option.splits)

lemma distinct_set_add: "distinct (map fst ds) \<Longrightarrow> distinct (map fst (set_add e ds))"
  by (auto simp: set_add_def)

lemma set_add_idem: "set_add e (set_add e ds) = set_add e ds"
  by (auto simp: set_add_def)

lemma track_idem: "track target key (track target key s) = track target key s"
  by (cases "activeEffect s") (auto simp: track_def Let_def set_add_idem)

lemma distinct_deps_track: "distinct_deps s \<Longrightarrow> distinct_deps (track target key s)"
  by (auto simp: distinct_deps_def dep_set_track distinct_set_add split: option.splits)

lemma dep_set_simps:
  "dep_set (s\<lparr>next_id := i\<rparr>) t k = dep_set s t k"
  "dep_set (s\<lparr>activeEffect := a\<rparr>) t k = dep_set s t k"
  "dep_set (s\<lparr>calls := c\<rparr>) t k = dep_set s t k"
  "dep_set (s\<lparr>heap := hp\<rparr>) t k = dep_set s t k"
  by (simp_all add: dep_set_def)

lemma distinct_deps_simps:
  "distinct_deps (s\<lparr>next_id := i\<rparr>) = distinct_deps s"
  "distinct_deps (s\<lparr>activeEffect := a\<rparr>) = distinct_deps s"
  "distinct_deps (s\<lparr>calls := c\<rparr>) = distinct_deps s"
  "distinct_deps (s\<lparr>heap := hp\<rparr>) = distinct_deps s"
  by (simp_all add: distinct_deps_def dep_set_simps)

lemma preserved_exec: "preserved R n \<Longrightarrow> exec n cs s = Some (c, s') \<Longrightarrow> R s s'"
  by (simp add: preserved_def)

lemma preserved_reactive_set: "preserved R n \<Longrightarrow> reactive_set n t k v s = Some (c, s') \<Longrightarrow> R s s'"
  by (simp add: preserved_def)

lemma preserved_effectFn: "preserved R n \<Longrightarrow> effectFn n e s = Some (c, s') \<Longrightarrow> R s s'"
  by (cases e) (simp add: preserved_def)


lemma distinct_deps_preserved: "preserved (\<lambda>s s'. distinct_deps s \<longrightarrow> distinct_deps s') n"
  by (rule preserved_all)
     (auto simp: distinct_deps_track distinct_deps_simps reflect_set_def)


text \<open>
  C8.  No subscriber set ever holds a closure twice: this holds when the module is loaded and
  is kept by \<open>track\<close> and by every run of reads, writes, \<open>track\<close>, \<open>trigger\<close> and
  \<open>effect\<close> calls that returns.  With an active subscriber, \<open>track\<close> creates the map of
  the target and the set of the key where they are missing and records the subscriber there.
  Tracking the same target and key again changes nothing, so a \<open>trigger\<close> after repeated
  tracking does what it does after a single one.
\<close>

theorem subscriber_sets_distinct:
  "distinct_deps (init objs) \<and>
   (distinct_deps s \<longrightarrow>
      distinct_deps (track target key s) \<and>
      (\<forall>n cs c s'. exec n cs s = Some (c, s') \<longrightarrow> distinct_deps s')) \<and>
   (\<forall>e. activeEffect s = Some e \<longrightarrow>
      typeDependencyMap (track target key s) target \<noteq> None \<and>
      dep_set (track target key s) target key = set_add e (dep_set s target key) \<and>
      fst e \<in> fst ` set (dep_set (track target key s) target key)) \<and>
   track target key (track target key s) = track target key s \<and>
   (\<forall>n. trigger n target key (track target key (track target key s)) = trigger n target key (track target key s))"
proof -
  have "distinct_deps (init objs)"
    by (simp add: distinct_deps_def dep_set_def init_def)
  moreover have "distinct_deps s'" if "distinct_deps s" "exec n cs s = Some (c, s')" for n cs c s'
    using preserved_exec [OF distinct_deps_preserved] that by blast
  moreover have "typeDependencyMap (track target key s) target \<noteq> None" if "activeEffect s = Some e" for e
    using that by (simp add: track_def Let_def)
  moreover have "fst e \<in> fst ` set (set_add e ds)" for e ds
    by (auto simp: set_add_def)
  ultimately show ?thesis
    by (auto simp: track_idem distinct_deps_track dep_set_track)
qed

theorem subscriber_sets_distinct_witness:
  "distinct_deps (init counter) \<and>
   outcome (exec 9 [Effect [Get 0 ''count'', Get 0 ''count''], Trigger 0 ''count''] (init counter))
     = Some (Returned ()) \<and>
   distinct_deps (snd (the (exec 9 [Effect [Get 0 ''count'', Get 0 ''count''], Trigger 0 ''count''] (init counter)))) \<and>
   final (subscribers 0 ''count'') (exec 9 [Effect [Get 0 ''count'', Get 0 ''count''], Trigger 0 ''count''] (init counter))
     = Some [0] \<and>
   final calls (exec 9 [Effect [Get 0 ''count'', Get 0 ''count''], Trigger 0 ''count''] (init counter))
     = Some [0, 0] \<and>
   dep_set (track 0 ''count'' running) 0 ''count'' = [(0, [Effect [], Get 0 ''count''])]"
proof -
  let ?prog = "[Effect [Get 0 ''count'', Get 0 ''count''], Trigger 0 ''count'']"
  have oc: "outcome (exec 9 ?prog (init counter)) = Some (Returned ())"
    by code_simp
  then obtain s' where run: "exec 9 ?prog (init counter) = Some (Returned (), s')"
    by (auto simp: outcome_def)
  have obs: "final (subscribers 0 ''count'') (exec 9 ?prog (init counter)) = Some [0]"
    "final calls (exec 9 ?prog (init counter)) = Some [0, 0]"
    by code_simp+
  have act: "activeEffect running = Some (0, [Effect [], Get 0 ''count''])"
    by (simp add: running_def)
  have emp: "dep_set running 0 ''count'' = []"
    by (simp add: running_def dep_set_def)
  from subscriber_sets_distinct [of counter "init counter" 0 "''count''"] run
  have a: "distinct_deps (init counter)" "distinct_deps s'" by blast+
  from subscriber_sets_distinct [of counter running 0 "''count''"] act emp
  have b: "dep_set (track 0 ''count'' running) 0 ''count'' = [(0, [Effect [], Get 0 ''count''])]"
    by (simp add: set_add_def)
  from oc run obs a b show ?thesis by simp
qed

lemma effectFn_returned: "effectFn n self s = Some (Returned u, s') \<Longrightarrow> activeEffect s' = None"
  by (cases n) (auto split: option.splits prod.splits completion.splits)




text \<open>
  C2, as amended.  When an invocation of the closure finishes with \<open>fn\<close> returning,
  \<open>activeEffect\<close> is \<open>null\<close>.  When \<open>fn\<close> throws, the closure clears nothing: the
  invocation ends in the state in which \<open>fn\<close> threw, so a callback that throws at once
  leaves \<open>activeEffect\<close> at the closure itself.
\<close>

theorem effectFn_clears_on_return:
  "(effectFn n self s = Some (Returned u, s') \<longrightarrow> activeEffect s' = None) \<and>
   (effectFn n self s = Some (Thrown e, s') \<longrightarrow>
      (\<exists>m. n = Suc m \<and>
           exec m (snd self) (s\<lparr>activeEffect := Some self, calls := calls s @ [fst self]\<rparr>) = Some (Thrown e, s'))) \<and>
   effectFn (Suc (Suc k)) (i, Throw msg # rest) s =
     Some (Thrown (Error msg), s\<lparr>activeEffect := Some (i, Throw msg # rest), calls := calls s @ [i]\<rparr>)"
proof -
  have "\<exists>m. n = Suc m \<and>
           exec m (snd self) (s\<lparr>activeEffect := Some self, calls := calls s @ [fst self]\<rparr>) = Some (Thrown e, s')"
    if "effectFn n self s = Some (Thrown e, s')"
    using that by (cases n) (auto split: option.splits prod.splits completion.splits)
  then show ?thesis
    by (auto dest: effectFn_returned)
qed

theorem effectFn_clears_on_return_witness:
  "outcome (effectFn 9 (0, [Get 0 ''count'']) (init counter)) = Some (Returned ()) \<and>
   activeEffect (snd (the (effectFn 9 (0, [Get 0 ''count'']) (init counter)))) = None \<and>
   outcome (effectFn 9 (0, [Set 0 ''count'' (JNum 1), Throw ''boom'']) (init counter))
     = Some (Thrown (Error ''boom'')) \<and>
   outcome (exec 8 [Set 0 ''count'' (JNum 1), Throw ''boom'']
      ((init counter)\<lparr>activeEffect := Some (0, [Set 0 ''count'' (JNum 1), Throw ''boom'']),
                       calls := calls (init counter) @ [0]\<rparr>))
     = Some (Thrown (Error ''boom''))"
proof -
  have r: "outcome (effectFn 9 (0, [Get 0 ''count'']) (init counter)) = Some (Returned ())"
    by code_simp
  then obtain s' where run: "effectFn 9 (0, [Get 0 ''count'']) (init counter) = Some (Returned (), s')"
    by (auto simp: outcome_def)
  have t: "outcome (effectFn 9 (0, [Set 0 ''count'' (JNum 1), Throw ''boom'']) (init counter))
     = Some (Thrown (Error ''boom''))"
    by code_simp
  then obtain s'' where thr:
    "effectFn 9 (0, [Set 0 ''count'' (JNum 1), Throw ''boom'']) (init counter) = Some (Thrown (Error ''boom''), s'')"
    by (auto simp: outcome_def)
  from effectFn_clears_on_return
    [where n = 9 and self = "(0, [Get 0 ''count''])" and s = "init counter" and u = "()" and s' = s'] run
  have a: "activeEffect s' = None" by simp
  from effectFn_clears_on_return
    [where n = 9 and self = "(0, [Set 0 ''count'' (JNum 1), Throw ''boom''])" and s = "init counter"
       and e = "Error ''boom''" and s' = s''] thr
  have b: "exec 8 [Set 0 ''count'' (JNum 1), Throw ''boom'']
      ((init counter)\<lparr>activeEffect := Some (0, [Set 0 ''count'' (JNum 1), Throw ''boom'']),
                       calls := calls (init counter) @ [0]\<rparr>) = Some (Thrown (Error ''boom''), s'')"
    by simp
  from r run a t b show ?thesis by (simp add: outcome_def)
qed

text \<open>
  The claim as stated fails: the callback throws, the invocation finishes with that
  exception, and \<open>activeEffect\<close> is still the closure.
\<close>

theorem effectFn_throw_counterexample:
  "outcome (effect 9 [Throw ''boom''] (init counter)) = Some (Thrown (Error ''boom'')) \<and>
   final activeEffect (effect 9 [Throw ''boom''] (init counter)) = Some (Some (0, [Throw ''boom'']))"
  by code_simp





end
